theory Spec2Isabelle
  imports Main "HOL-Library.Word"
begin

section \<open>Detective Quest: the model of \<^verbatim>\<open>detetivequest.c\<close>\<close>

text \<open>
  Conventions of the embedding.
  \<^item> A C string is the list of the bytes in front of its terminating NUL, a \<open>string\<close>;
    such a list holds no NUL byte (\<open>cstr\<close>). Bytes are compared as \<^verbatim>\<open>unsigned char\<close>,
    read by \<open>of_char\<close>.
  \<^item> A pointer to a \<^verbatim>\<open>PistaNode\<close> or to a chain of \<^verbatim>\<open>HashEntry\<close> is a value of a datatype
    (\<open>Nulo\<close>, the empty list for \<^verbatim>\<open>NULL\<close>): these structures are only ever built by the
    functions below, node by node. Rooms are linked by hand and mutated in place through
    the pointer \<^verbatim>\<open>atual\<close>, so they live in an explicit store from addresses to rooms.
  \<^item> A C \<^verbatim>\<open>int\<close> is a \<open>32 word\<close>, read as a signed number by \<open>sint\<close>. C leaves signed overflow
    undefined; the model wraps around, as the two's complement machines the program runs
    on do: one more than 2147483647 is -2147483648.
  \<^item> \<^verbatim>\<open>malloc\<close> is taken to succeed; on failure the program exits at once. Memory is
    never freed before the end of \<^verbatim>\<open>main\<close>, and the \<^verbatim>\<open>liberar\<close> functions are left out.
  \<^item> Every \<^verbatim>\<open>printf\<close> is a constructor of \<open>msg\<close>, appended to the output.
  \<^item> A dereference of an address outside the store is the error \<open>PonteiroInvalido\<close>.
\<close>

subsection \<open>Strings (\<^verbatim>\<open>string.h\<close>, \<^verbatim>\<open>ctype.h\<close> and the helpers of the program)\<close>

definition NUL :: char where
  "NUL = CHR 0x00"

definition NL :: char where
  "NL = CHR 0x0A"

definition cstr :: "string \<Rightarrow> bool" where
  "cstr s = (NUL \<notin> set s)"

text \<open>\<^verbatim>\<open>strcmp\<close>: the difference of the first two bytes that differ, the end of a string
  being its NUL; only the sign of the result is specified by C, and only the sign is used.\<close>

fun strcmp :: "string \<Rightarrow> string \<Rightarrow> int" where
  "strcmp [] [] = 0"
| "strcmp [] (b # bs) = 0 - of_char b"
| "strcmp (a # as) [] = of_char a - 0"
| "strcmp (a # as) (b # bs) = (if a = b then strcmp as bs else of_char a - of_char b)"

text \<open>\<^verbatim>\<open>tolower\<close> in the "C" locale (the program never calls \<^verbatim>\<open>setlocale\<close>).\<close>

definition tolower :: "char \<Rightarrow> char" where
  "tolower c = (if (65::nat) \<le> of_char c \<and> of_char c \<le> (90::nat)
                then char_of (of_char c + (32::nat)) else c)"

text \<open>\<^verbatim>\<open>isspace\<close> in the "C" locale: space, \<^verbatim>\<open>\t \n \v \f \r\<close>.\<close>

definition isspace :: "char \<Rightarrow> bool" where
  "isspace c = (of_char c = (32::nat) \<or> ((9::nat) \<le> of_char c \<and> of_char c \<le> (13::nat)))"

text \<open>\<^verbatim>\<open>trim_nl\<close>: overwrites a final newline with NUL. (The callers pass arrays, never \<^verbatim>\<open>NULL\<close>.)\<close>

definition trim_nl :: "string \<Rightarrow> string" where
  "trim_nl s = (let n = length s in
     if n = 0 then s
     else if s ! (n - 1) = NL then take (n - 1) s
     else s)"

subsection \<open>The ledger of clues: a binary search tree\<close>

datatype PistaNode = Nulo | No string "32 word" PistaNode PistaNode
  \<comment> \<open>\<^verbatim>\<open>pista\<close>, \<^verbatim>\<open>contador\<close>, \<^verbatim>\<open>esq\<close>, \<^verbatim>\<open>dir\<close>\<close>

definition novoNoPista :: "string \<Rightarrow> PistaNode" where
  "novoNoPista p = No p 1 Nulo Nulo"

fun inserirPista :: "PistaNode \<Rightarrow> string \<Rightarrow> PistaNode" where
  "inserirPista Nulo p = novoNoPista p"
| "inserirPista (No k c l r) p =
     (let cmp = strcmp p k in
      if cmp = 0 then No k (c + 1) l r
      else if cmp < 0 then No k c (inserirPista l p) r
      else No k c l (inserirPista r p))"

datatype msg =
    MsgComeco
  | MsgSala string
  | MsgPistaEncontrada string
  | MsgJaColetada
  | MsgNenhumaPista
  | MsgOpcoes
  | MsgEscolha
  | MsgEncerrar
  | MsgSemEsquerda
  | MsgSemDireita
  | MsgInvalido
  | MsgTitulo
  | MsgInstrucoes
  | MsgPistasColetadas
  | MsgNenhumaColetada
  | MsgPista string int
  | MsgPedirAcusado
  | MsgNomeAcusado
  | MsgSemNome
  | MsgAcusou string
  | MsgNumero string int
  | MsgSustentada
  | MsgFraca
  | MsgFim

text \<open>\<^verbatim>\<open>exibirPistasInOrder\<close>: the lines it prints, one per node, left subtree first.\<close>

fun exibirPistasInOrder :: "PistaNode \<Rightarrow> msg list" where
  "exibirPistasInOrder Nulo = []"
| "exibirPistasInOrder (No k c l r) =
     exibirPistasInOrder l @ [MsgPista k (sint c)] @ exibirPistasInOrder r"

text \<open>The insertions of a whole sequence of clues, first to last.\<close>

definition inserir_todas :: "PistaNode \<Rightarrow> string list \<Rightarrow> PistaNode" where
  "inserir_todas t ps = foldl inserirPista t ps"

text \<open>Vocabulary for the properties of the ledger: the nodes of a tree in order, as pairs
  of clue and counter, and the same with the counters read as signed numbers; the strict
  order of \<^verbatim>\<open>strcmp\<close>; the search tree invariant; the shape of a tree, its counters
  forgotten.\<close>

fun nos :: "PistaNode \<Rightarrow> (string \<times> 32 word) list" where
  "nos Nulo = []"
| "nos (No k c l r) = nos l @ [(k, c)] @ nos r"

definition contagens :: "PistaNode \<Rightarrow> (string \<times> int) list" where
  "contagens t = map (\<lambda>x. (fst x, sint (snd x))) (nos t)"

definition menor :: "string \<Rightarrow> string \<Rightarrow> bool" where
  "menor a b = (strcmp a b < 0)"

fun bst :: "PistaNode \<Rightarrow> bool" where
  "bst Nulo = True"
| "bst (No k c l r) =
     (bst l \<and> bst r \<and> (\<forall>x \<in> set (nos l). menor (fst x) k) \<and> (\<forall>x \<in> set (nos r). menor k (fst x)))"

fun forma :: "PistaNode \<Rightarrow> PistaNode" where
  "forma Nulo = Nulo"
| "forma (No k c l r) = No k 0 (forma l) (forma r)"

fun pistas_de :: "msg list \<Rightarrow> string list" where
  "pistas_de [] = []"
| "pistas_de (MsgPista k c # ms) = k # pistas_de ms"
| "pistas_de (m # ms) = pistas_de ms"

text \<open>The order of bytes as \<^verbatim>\<open>unsigned char\<close>; \<open>lexord ordem_bytes\<close> is the strict
  lexicographic order of byte strings.\<close>

definition ordem_bytes :: "(char \<times> char) set" where
  "ordem_bytes = {(c, d). (of_char c :: nat) < of_char d}"

text \<open>What an insertion of a clue already in the ledger does to the count of a node, while
  the counter does not overflow.\<close>

definition incrementar :: "string \<Rightarrow> string \<times> 'a::{one,plus} \<Rightarrow> string \<times> 'a" where
  "incrementar p x = (if fst x = p then (fst x, snd x + 1) else x)"

subsection \<open>The association table: a hash table with chaining\<close>

text \<open>A chain of \<^verbatim>\<open>HashEntry\<close> is the list of its entries (\<^verbatim>\<open>pista\<close>, \<^verbatim>\<open>suspeito\<close>), the head
  first; the global array \<^verbatim>\<open>tabelaHash\<close> maps each index to its chain.\<close>

type_synonym HashEntry = "string \<times> string"

type_synonym tabela = "nat \<Rightarrow> HashEntry list"

definition HASH_SIZE :: nat where
  "HASH_SIZE = 31"

definition tabela_vazia :: tabela where
  "tabela_vazia = (\<lambda>i. [])"

text \<open>\<^verbatim>\<open>hash_djb2\<close>, with \<^verbatim>\<open>unsigned long\<close> of 64 bits (LP64).\<close>

fun hash_laco :: "64 word \<Rightarrow> string \<Rightarrow> 64 word" where
  "hash_laco hash [] = hash"
| "hash_laco hash (c # str) = hash_laco ((push_bit 5 hash + hash) + of_char c) str"

definition hash_djb2 :: "string \<Rightarrow> 64 word" where
  "hash_djb2 str = hash_laco 5381 str"

definition indice :: "string \<Rightarrow> nat" where
  "indice p = unat (hash_djb2 p mod word_of_nat HASH_SIZE)"

definition inserirNaHash :: "string \<Rightarrow> string \<Rightarrow> tabela \<Rightarrow> tabela" where
  "inserirNaHash p suspeito tab =
     (let h = indice p;
          entry = (p, suspeito)
      in tab(h := entry # tab h))"

fun percorrer :: "HashEntry list \<Rightarrow> string \<Rightarrow> string option" where
  "percorrer [] p = None"
| "percorrer ((k, suspeito) # prox) p =
     (if strcmp k p = 0 then Some suspeito else percorrer prox p)"

definition encontrarSuspeito :: "tabela \<Rightarrow> string \<Rightarrow> string option" where
  "encontrarSuspeito tab p = (let h = indice p in percorrer (tab h) p)"

definition inserir_na_hash_todas :: "tabela \<Rightarrow> HashEntry list \<Rightarrow> tabela" where
  "inserir_na_hash_todas tab kvs = foldl (\<lambda>t (k, v). inserirNaHash k v t) tab kvs"

subsection \<open>Counting the clues that point at a suspect\<close>

fun contarPistasQueApontam :: "tabela \<Rightarrow> PistaNode \<Rightarrow> string \<Rightarrow> 32 word" where
  "contarPistasQueApontam tab Nulo suspeitoAlvo = 0"
| "contarPistasQueApontam tab (No k c l r) suspeitoAlvo =
     (let total = 0;
          total = (case encontrarSuspeito tab k of
                     None \<Rightarrow> total
                   | Some sus \<Rightarrow> if strcmp sus suspeitoAlvo = 0 then total + c else total);
          total = total + contarPistasQueApontam tab l suspeitoAlvo;
          total = total + contarPistasQueApontam tab r suspeitoAlvo
      in total)"

text \<open>The clue of a node resolves to a well-formed string, or to nothing.\<close>

definition resolve_cstr :: "tabela \<Rightarrow> string \<Rightarrow> bool" where
  "resolve_cstr tab k = (case encontrarSuspeito tab k of None \<Rightarrow> True | Some sus \<Rightarrow> cstr sus)"

subsection \<open>Rooms\<close>

record Sala =
  nome :: string
  pista :: "string option"
  pistaColetada :: "32 word"
  esq :: "nat option"
  dir :: "nat option"

type_synonym memoria = "nat \<rightharpoonup> Sala"

definition criarSala :: "string \<Rightarrow> string option \<Rightarrow> Sala" where
  "criarSala n p = \<lparr>nome = n, pista = p, pistaColetada = 0, esq = None, dir = None\<rparr>"

subsection \<open>Standard input\<close>

text \<open>Standard input is the list of the bytes not yet read. \<^verbatim>\<open>fgets(buf, n, stdin)\<close> fails at
  the end of the input; otherwise it reads up to and including the next newline, at most
  \<open>n - 1\<close> bytes, and the string left in the buffer ends at the first NUL read, if any.
  The result is that string and the input that remains.\<close>

definition fgets :: "nat \<Rightarrow> string \<Rightarrow> (string \<times> string) option" where
  "fgets n entrada =
     (if entrada = [] then None
      else let ate = takeWhile (\<lambda>c. c \<noteq> NL) entrada;
               lin = (if length ate < length entrada then ate @ [NL] else ate);
               lidos = take (n - 1) lin
           in Some (takeWhile (\<lambda>c. c \<noteq> NUL) lidos, drop (length lidos) entrada))"

subsection \<open>Exploration\<close>

datatype erro = PonteiroInvalido

datatype controle = Continuar | Sair

record estado =
  salas :: memoria
  atual :: nat
  rootPistas :: PistaNode
  saida :: "msg list"

definition imprimir :: "msg list \<Rightarrow> estado \<Rightarrow> estado" where
  "imprimir ms s = s\<lparr>saida := saida s @ ms\<rparr>"

text \<open>\<^verbatim>\<open>explorarSalasComPistas\<close>, the first half of the loop body (lines 218 to 227): the
  room is announced and its clue, if not yet collected, goes into the ledger.\<close>

definition visitar :: "estado \<Rightarrow> erro + estado" where
  "visitar s =
     (case salas s (atual s) of
        None \<Rightarrow> Inl PonteiroInvalido
      | Some sala \<Rightarrow>
          let s = imprimir [MsgSala (nome sala)] s in
          (case pista sala of
             Some p \<Rightarrow>
               if pistaColetada sala = 0 then
                 let s = imprimir [MsgPistaEncontrada p] s;
                     s = s\<lparr>rootPistas := inserirPista (rootPistas s) p\<rparr>;
                     s = s\<lparr>salas := (salas s)(atual s \<mapsto> sala\<lparr>pistaColetada := 1\<rparr>)\<rparr>
                 in Inr s
               else Inr (imprimir [MsgJaColetada] s)
           | None \<Rightarrow> Inr (imprimir [MsgNenhumaPista] s)))"

text \<open>The second half (lines 232 to 252), once \<^verbatim>\<open>fgets\<close> has filled \<^verbatim>\<open>linha\<close>: whether the
  loop goes on, and the state it goes on with.\<close>

definition comando :: "string \<Rightarrow> estado \<Rightarrow> erro + (controle \<times> estado)" where
  "comando linha s =
     (case trim_nl linha of
        [] \<Rightarrow> Inr (Continuar, s)
      | c0 # resto \<Rightarrow>
          let cmd = tolower c0 in
          if cmd = CHR ''s'' then Inr (Sair, imprimir [MsgEncerrar] s)
          else if cmd = CHR ''e'' then
            (case salas s (atual s) of
               None \<Rightarrow> Inl PonteiroInvalido
             | Some sala \<Rightarrow>
                 (case esq sala of
                    Some a \<Rightarrow> Inr (Continuar, s\<lparr>atual := a\<rparr>)
                  | None \<Rightarrow> Inr (Continuar, imprimir [MsgSemEsquerda] s)))
          else if cmd = CHR ''d'' then
            (case salas s (atual s) of
               None \<Rightarrow> Inl PonteiroInvalido
             | Some sala \<Rightarrow>
                 (case dir sala of
                    Some a \<Rightarrow> Inr (Continuar, s\<lparr>atual := a\<rparr>)
                  | None \<Rightarrow> Inr (Continuar, imprimir [MsgSemDireita] s)))
          else Inr (Continuar, imprimir [MsgInvalido] s))"

text \<open>One pass of the loop, and the loop. The input gets shorter with every line read, so
  the loop ends on every input.\<close>

definition iteracao :: "estado \<Rightarrow> string \<Rightarrow> erro + (controle \<times> estado \<times> string)" where
  "iteracao s entrada =
     (case visitar s of
        Inl e \<Rightarrow> Inl e
      | Inr s \<Rightarrow>
          let s = imprimir [MsgOpcoes, MsgEscolha] s in
          (case fgets 128 entrada of
             None \<Rightarrow> Inr (Sair, s, entrada)
           | Some (linha, resto) \<Rightarrow>
               (case comando linha s of
                  Inl e \<Rightarrow> Inl e
                | Inr (c, s) \<Rightarrow> Inr (c, s, resto))))"

function explorar_laco :: "estado \<Rightarrow> string \<Rightarrow> erro + (estado \<times> string)" where
  "explorar_laco s entrada =
     (case iteracao s entrada of
        Inl e \<Rightarrow> Inl e
      | Inr (Sair, s', resto) \<Rightarrow> Inr (s', resto)
      | Inr (Continuar, s', resto) \<Rightarrow> explorar_laco s' resto)"
  by pat_completeness auto
termination
proof (relation "measure (\<lambda>(s, entrada). length entrada)")
  show "wf (measure (\<lambda>(s, entrada). length entrada))"
    by simp
next
  fix s :: estado and entrada :: string and b x y s' resto
  assume it: "iteracao s entrada = Inr b" and b: "(x, y) = b" "x = Continuar" "(s', resto) = y"
  from it b obtain linha where "fgets 128 entrada = Some (linha, resto)"
    by (auto simp: iteracao_def Let_def split: sum.splits option.splits prod.splits)
  then have "length resto < length entrada"
    by (cases entrada) (auto simp: fgets_def Let_def split: if_splits)
  then show "((s', resto), (s, entrada)) \<in> measure (\<lambda>(s, entrada). length entrada)"
    by simp
qed

definition explorarSalasComPistas ::
    "memoria \<Rightarrow> nat \<Rightarrow> PistaNode \<Rightarrow> msg list \<Rightarrow> string \<Rightarrow> erro + (estado \<times> string)" where
  "explorarSalasComPistas mem inicio root out entrada =
     explorar_laco
       (imprimir [MsgComeco] \<lparr>salas = mem, atual = inicio, rootPistas = root, saida = out\<rparr>)
       entrada"

subsection \<open>The accusation and \<^verbatim>\<open>main\<close>\<close>

text \<open>The name of the accused, as \<^verbatim>\<open>main\<close> reads it: the empty string when \<^verbatim>\<open>fgets\<close> fails,
  the line without its final newline otherwise.\<close>

definition ler_acusacao :: "string \<Rightarrow> string" where
  "ler_acusacao entrada =
     (let acusacao = (case fgets 128 entrada of None \<Rightarrow> [] | Some (linha, resto) \<Rightarrow> linha)
      in trim_nl acusacao)"

text \<open>Lines 342 to 354 of \<^verbatim>\<open>main\<close>.\<close>

definition fase_acusacao :: "tabela \<Rightarrow> PistaNode \<Rightarrow> string \<Rightarrow> msg list" where
  "fase_acusacao tab root entrada =
     (let acusacao = ler_acusacao entrada
      in if length acusacao = 0 then [MsgSemNome]
         else let totalQueApontam = contarPistasQueApontam tab root acusacao in
           [MsgAcusou acusacao, MsgNumero acusacao (sint totalQueApontam)] @
           (if sint totalQueApontam \<ge> 2 then [MsgSustentada] else [MsgFraca]))"

text \<open>The map of the mansion, as \<^verbatim>\<open>main\<close> links it; addresses 0 to 6 stand for the seven
  rooms allocated.\<close>

definition cha :: string where
  "cha = ''resto de ch'' @ [CHR 0xC3, CHR 0xA1] @ '' de ervas''"

definition peca :: string where
  "peca = ''pe'' @ [CHR 0xC3, CHR 0xA7] @ ''a de chave inglesa com verniz''"

definition mansao :: memoria where
  "mansao = Map.empty
     (0 \<mapsto> (criarSala ''Hall de Entrada'' None)\<lparr>esq := Some 1, dir := Some 2\<rparr>,
      1 \<mapsto> (criarSala ''Biblioteca'' (Some ''Marca de luva com poeira''))\<lparr>esq := Some 3, dir := Some 4\<rparr>,
      2 \<mapsto> (criarSala ''Sala de Estar'' (Some ''Copo quebrado com pegadas''))\<lparr>esq := Some 5, dir := Some 6\<rparr>,
      3 \<mapsto> criarSala ''Cozinha'' (Some cha),
      4 \<mapsto> criarSala ''Jardim'' None,
      5 \<mapsto> criarSala ''Corredor'' (Some ''notas rasgadas com iniciais A.B.''),
      6 \<mapsto> criarSala ''Oficina'' (Some peca))"

definition associacoes :: "HashEntry list" where
  "associacoes =
     [(''Marca de luva com poeira'', ''Sr. Almeida''),
      (''Copo quebrado com pegadas'', ''Sra. Beatriz''),
      (cha, ''Srta. Camila''),
      (''notas rasgadas com iniciais A.B.'', ''Sra. Beatriz''),
      (peca, ''Sr. Almeida'')]"

definition main :: "string \<Rightarrow> erro + msg list" where
  "main entrada =
     (let tab = inserir_na_hash_todas tabela_vazia associacoes in
      case explorarSalasComPistas mansao 0 Nulo [MsgTitulo, MsgInstrucoes] entrada of
        Inl e \<Rightarrow> Inl e
      | Inr (s, entrada) \<Rightarrow>
          let out = saida s @ [MsgPistasColetadas] @
                (if rootPistas s = Nulo then [MsgNenhumaColetada]
                 else exibirPistasInOrder (rootPistas s)) @
                [MsgPedirAcusado, MsgNomeAcusado]
          in Inr (out @ fase_acusacao tab (rootPistas s) entrada @ [MsgFim]))"

subsection \<open>Vocabulary and examples for the exploration\<close>

text \<open>What the exploration may change in a room: nothing but the flag, and the flag only
  from zero to non-zero.\<close>

definition mesma_sala :: "Sala \<Rightarrow> Sala \<Rightarrow> bool" where
  "mesma_sala r r' = (nome r' = nome r \<and> pista r' = pista r \<and> esq r' = esq r \<and> dir r' = dir r \<and>
     (pistaColetada r \<noteq> 0 \<longrightarrow> pistaColetada r' \<noteq> 0))"

text \<open>A room whose clue was collected between two states: the room held the clue with its
  flag unset in the first state, and its flag is set in the second.\<close>

definition coleta :: "estado \<Rightarrow> estado \<Rightarrow> nat \<times> string \<Rightarrow> bool" where
  "coleta s s' x =
     (case salas s (fst x) of
        None \<Rightarrow> False
      | Some r \<Rightarrow>
          (case salas s' (fst x) of
             None \<Rightarrow> False
           | Some r' \<Rightarrow> pista r = Some (snd x) \<and> pistaColetada r = 0 \<and> pistaColetada r' \<noteq> 0))"

text \<open>A store in which every door of every room leads to a room.\<close>

definition fechada :: "memoria \<Rightarrow> bool" where
  "fechada mem = (\<forall>a r. mem a = Some r \<longrightarrow>
     (\<forall>b. esq r = Some b \<longrightarrow> mem b \<noteq> None) \<and> (\<forall>b. dir r = Some b \<longrightarrow> mem b \<noteq> None))"

text \<open>States of the exploration of the mansion: at the entrance with nothing collected;
  in the library after and before its clue was collected; in the kitchen, a room without
  doors.\<close>

definition hall0 :: estado where
  "hall0 = \<lparr>salas = mansao, atual = 0, rootPistas = Nulo, saida = []\<rparr>"

definition biblioteca_visitada :: estado where
  "biblioteca_visitada =
     \<lparr>salas = mansao(1 \<mapsto> (criarSala ''Biblioteca'' (Some ''Marca de luva com poeira''))
                \<lparr>pistaColetada := 1, esq := Some 3, dir := Some 4\<rparr>),
      atual = 1, rootPistas = No ''Marca de luva com poeira'' 1 Nulo Nulo, saida = []\<rparr>"

definition biblioteca0 :: estado where
  "biblioteca0 = \<lparr>salas = mansao, atual = 1, rootPistas = Nulo, saida = []\<rparr>"

definition cozinha0 :: estado where
  "cozinha0 = \<lparr>salas = mansao, atual = 3, rootPistas = Nulo, saida = []\<rparr>"

subsection \<open>The example of the specification\<close>

text \<open>Clues \<open>A\<close> and \<open>C\<close> point at \<open>X\<close>, clue \<open>B\<close> at \<open>Y\<close>; \<open>A\<close> was collected twice. In the
  second ledger \<open>A\<close> and \<open>C\<close> were collected \<open>2 ^ 30\<close> times each.\<close>

definition tabela_exemplo :: tabela where
  "tabela_exemplo =
     inserir_na_hash_todas tabela_vazia [(''A'', ''X''), (''B'', ''Y''), (''C'', ''X'')]"

definition ledger_exemplo :: PistaNode where
  "ledger_exemplo = inserir_todas Nulo [''B'', ''A'', ''C'', ''A'']"

definition ledger_cheio :: PistaNode where
  "ledger_cheio = No ''C'' 1073741824 (No ''A'' 1073741824 Nulo Nulo) Nulo"

subsection \<open>Properties of strings\<close>

lemma strcmp_refl: "strcmp a a = 0"
  by (induction a) simp_all

lemma of_char_int_0: "(of_char c = (0::int)) = (c = NUL)"
proof -
  have "(of_char c = (0::int)) = (of_char c = (of_char NUL :: int))"
    by (simp add: NUL_def)
  then show ?thesis
    by (simp only: of_char_eq_iff)
qed

lemma strcmp_eq_0: "cstr a \<Longrightarrow> cstr b \<Longrightarrow> strcmp a b = 0 \<Longrightarrow> a = b"
proof (induction a b rule: strcmp.induct)
  case (2 b bs)
  then show ?case by (simp add: cstr_def of_char_int_0)
next
  case (3 a as)
  then show ?case by (simp add: cstr_def of_char_int_0)
next
  case (4 a as b bs)
  then show ?case by (simp add: cstr_def split: if_splits)
qed simp

lemma strcmp_sym: "strcmp b a = - strcmp a b"
  by (induction a b rule: strcmp.induct) auto

lemma of_char_int_less: "((of_char c :: int) < of_char d) = ((of_char c :: nat) < of_char d)"
proof -
  have "(of_char c :: int) = int (of_char c)" "(of_char d :: int) = int (of_char d)"
    by (simp_all add: of_nat_of_char)
  then show ?thesis by simp
qed

lemma of_char_int_pos: "c \<noteq> NUL \<Longrightarrow> (0::int) < of_char c"
proof -
  assume "c \<noteq> NUL"
  then have "(of_char c :: int) \<noteq> 0" by (simp add: of_char_int_0)
  moreover have "(0::int) \<le> of_char c"
    by (metis of_nat_of_char of_nat_0_le_iff)
  ultimately show ?thesis by simp
qed

lemma menor_lexord:
  "cstr a \<Longrightarrow> cstr b \<Longrightarrow> menor a b = ((a, b) \<in> lexord ordem_bytes)"
proof (induction a b rule: strcmp.induct)
  case 1
  then show ?case by (simp add: menor_def)
next
  case (2 b bs)
  then show ?case using of_char_int_pos[of b] by (auto simp: menor_def cstr_def)
next
  case (3 a as)
  then show ?case using of_char_int_pos[of a] by (auto simp: menor_def cstr_def)
next
  case (4 a as b bs)
  then show ?case
    by (auto simp: menor_def cstr_def ordem_bytes_def of_char_int_less)
qed

lemma trans_ordem_bytes: "trans ordem_bytes"
  by (auto simp: trans_def ordem_bytes_def)

lemma menor_trans: "cstr a \<Longrightarrow> cstr b \<Longrightarrow> cstr c \<Longrightarrow> menor a b \<Longrightarrow> menor b c \<Longrightarrow> menor a c"
  using lexord_trans[OF _ _ trans_ordem_bytes] by (simp add: menor_lexord)

lemma menor_irrefl: "\<not> menor a a"
  by (simp add: menor_def strcmp_refl)

lemma menor_asym: "menor a b \<Longrightarrow> \<not> menor b a"
  using strcmp_sym[of a b] by (simp add: menor_def)

lemma nao_menor: "strcmp p k \<noteq> 0 \<Longrightarrow> \<not> strcmp p k < 0 \<Longrightarrow> menor k p"
  using strcmp_sym[of p k] by (simp add: menor_def)

lemma trim_nl_Cons:
  "trim_nl (c # l) = (if l = [] then (if c = NL then [] else [c]) else c # trim_nl l)"
  by (cases l rule: rev_cases) (auto simp: trim_nl_def Let_def nth_append)

lemma trim_nl_snoc: "trim_nl (l @ [NL]) = l"
  by (simp add: trim_nl_def)

lemma trim_nl_id: "NL \<notin> set l \<Longrightarrow> trim_nl l = l"
  by (cases l rule: rev_cases) (auto simp: trim_nl_def Let_def)

lemma trim_nl_Cons_ex: "\<not> (l = [] \<and> c = NL) \<Longrightarrow> \<exists>r0. trim_nl (c # l) = c # r0"
  by (simp add: trim_nl_Cons)

lemma trim_nl_vazia: "(trim_nl l = []) = (l = [] \<or> l = [NL])"
proof (cases l)
  case Nil
  then show ?thesis by (simp add: trim_nl_def)
next
  case (Cons c cs)
  then show ?thesis by (auto simp: trim_nl_Cons split: if_splits)
qed

lemma of_char_tolower:
  "(of_char (tolower c) :: nat) =
     (if 65 \<le> (of_char c :: nat) \<and> (of_char c :: nat) \<le> 90 then of_char c + 32 else of_char c)"
  by (simp add: tolower_def)

lemma tolower_idem: "tolower (tolower c) = tolower c"
proof -
  have "(of_char (tolower (tolower c)) :: nat) = of_char (tolower c)"
    by (simp add: of_char_tolower)
  then show ?thesis
    by (simp only: of_char_eq_iff)
qed

lemma tolower_NL: "(tolower c = NL) = (c = NL)"
proof -
  have "(tolower c = NL) = ((of_char (tolower c) :: nat) = of_char NL)"
    by (simp only: of_char_eq_iff)
  also have "\<dots> = ((of_char c :: nat) = of_char NL)"
    by (simp add: of_char_tolower NL_def)
  also have "\<dots> = (c = NL)"
    by (simp only: of_char_eq_iff)
  finally show ?thesis .
qed

lemma isspace_tolower:
  "isspace c \<Longrightarrow> tolower c = c \<and> c \<noteq> CHR ''s'' \<and> c \<noteq> CHR ''e'' \<and> c \<noteq> CHR ''d''"
  by (auto simp: isspace_def tolower_def)

subsection \<open>Properties of the ledger\<close>

lemma chaves_inserir:
  "set (map fst (nos (inserirPista t p))) \<subseteq> insert p (set (map fst (nos t)))"
  by (induction t) (auto simp: novoNoPista_def Let_def)

lemma chaves_inserir_sup:
  "set (map fst (nos t)) \<subseteq> set (map fst (nos (inserirPista t p)))"
  by (induction t) (auto simp: novoNoPista_def Let_def)

lemma chaves_inserir_mem: "cstr p \<Longrightarrow> \<forall>x \<in> set (nos t). cstr (fst x) \<Longrightarrow>
    p \<in> set (map fst (nos (inserirPista t p)))"
  by (induction t) (auto simp: novoNoPista_def Let_def dest: strcmp_eq_0)

lemma bst_inserir:
  "bst t \<Longrightarrow> bst (inserirPista t p)"
proof (induction t)
  case Nulo
  then show ?case by (simp add: novoNoPista_def)
next
  case (No k c l r)
  have l: "\<And>x. x \<in> set (nos (inserirPista l p)) \<Longrightarrow> fst x = p \<or> x \<in> set (nos l) \<or> fst x \<in> fst ` set (nos l)"
    using chaves_inserir[of l p] by auto
  have r: "\<And>x. x \<in> set (nos (inserirPista r p)) \<Longrightarrow> fst x = p \<or> fst x \<in> fst ` set (nos r)"
    using chaves_inserir[of r p] by auto
  from No show ?case
    by (auto simp: Let_def menor_def[of p k] nao_menor dest!: l r)
qed

lemma cstr_inserir: "cstr p \<Longrightarrow> \<forall>x \<in> set (nos t). cstr (fst x) \<Longrightarrow>
    \<forall>x \<in> set (nos (inserirPista t p)). cstr (fst x)"
proof
  fix x
  assume c: "cstr p" "\<forall>x \<in> set (nos t). cstr (fst x)" and "x \<in> set (nos (inserirPista t p))"
  then have "fst x \<in> set (map fst (nos (inserirPista t p)))"
    by simp
  then have "fst x \<in> insert p (set (map fst (nos t)))"
    using chaves_inserir[of t p] by (rule rev_subsetD)
  then show "cstr (fst x)"
    using c by auto
qed

lemma chaves_eq: "cstr p \<Longrightarrow> \<forall>x \<in> set (nos t). cstr (fst x) \<Longrightarrow>
    set (map fst (nos (inserirPista t p))) = insert p (set (map fst (nos t)))"
  using chaves_inserir[of t p] chaves_inserir_sup[of t p] chaves_inserir_mem[of p t] by blast

lemma bst_ordenada:
  "bst t \<Longrightarrow> \<forall>x \<in> set (nos t). cstr (fst x) \<Longrightarrow> sorted_wrt menor (map fst (nos t))"
proof (induction t)
  case Nulo
  then show ?case by simp
next
  case (No k c l r)
  have "menor (fst x) (fst y)" if "x \<in> set (nos l)" "y \<in> set (nos r)" for x y
    using that No.prems menor_trans[of "fst x" k "fst y"] by auto
  with No show ?case
    by (auto simp: sorted_wrt_append)
qed

lemma pistas_de_append: "pistas_de (xs @ ys) = pistas_de xs @ pistas_de ys"
  by (induction xs rule: pistas_de.induct) simp_all

lemma pistas_de_exibir: "pistas_de (exibirPistasInOrder t) = map fst (nos t)"
  by (induction t) (simp_all add: pistas_de_append)

lemma inserir_todas_inv:
  "bst t \<Longrightarrow> \<forall>x \<in> set (nos t). cstr (fst x) \<Longrightarrow> \<forall>p \<in> set ps. cstr p \<Longrightarrow>
     bst (inserir_todas t ps) \<and>
     set (map fst (nos (inserir_todas t ps))) = set (map fst (nos t)) \<union> set ps"
proof (induction ps arbitrary: t)
  case Nil
  then show ?case by (simp add: inserir_todas_def)
next
  case (Cons p ps)
  have k: "set (map fst (nos (inserirPista t p))) = insert p (set (map fst (nos t)))"
    using Cons.prems by (intro chaves_eq) simp_all
  have c: "\<forall>x \<in> set (nos (inserirPista t p)). cstr (fst x)"
    using Cons.prems by (intro cstr_inserir) simp_all
  have "bst (inserirPista t p)"
    using Cons.prems by (simp add: bst_inserir)
  from Cons.IH[OF this c] Cons.prems k show ?case
    by (simp add: inserir_todas_def)
qed

text \<open>C3. Whatever clues are inserted into an empty ledger, in whatever order,
  \<^verbatim>\<open>exibirPistasInOrder\<close> prints the clues stored, each once, in strictly ascending
  lexicographic order of their bytes; the clues printed are exactly those inserted.\<close>

theorem C3_em_ordem:
  assumes "\<forall>p \<in> set ps. cstr p"
  shows "sorted_wrt (\<lambda>a b. (a, b) \<in> lexord ordem_bytes)
           (pistas_de (exibirPistasInOrder (inserir_todas Nulo ps)))
         \<and> set (pistas_de (exibirPistasInOrder (inserir_todas Nulo ps))) = set ps"
proof -
  let ?t = "inserir_todas Nulo ps"
  have inv: "bst ?t" "set (map fst (nos ?t)) = set ps"
    using inserir_todas_inv[of Nulo ps] assms by simp_all
  have c: "\<forall>x \<in> set (nos ?t). cstr (fst x)"
  proof
    fix x
    assume "x \<in> set (nos ?t)"
    then have "fst x \<in> set (map fst (nos ?t))"
      by simp
    then show "cstr (fst x)"
      using assms by (simp only: inv(2))
  qed
  have "sorted_wrt menor (map fst (nos ?t))"
    using inv(1) c by (rule bst_ordenada)
  then  have "sorted_wrt (\<lambda>a b. (a, b) \<in> lexord ordem_bytes) (map fst (nos ?t))"
  proof (rule sorted_wrt_mono_rel[of _ menor, rotated])
    fix a b
    assume "a \<in> set (map fst (nos ?t))" "b \<in> set (map fst (nos ?t))" "menor a b"
    then show "(a, b) \<in> lexord ordem_bytes"
      using c menor_lexord[of a b] by auto
  qed
  with inv(2) show ?thesis
    by (simp add: pistas_de_exibir)
qed

theorem C3_em_ordem_witness:
  "list_all cstr [''tea'', ''glove'', ''tea'', ''ash'', ''Tea''] \<and>
   sorted_wrt (\<lambda>a b. (a, b) \<in> lexord ordem_bytes)
     (pistas_de (exibirPistasInOrder (inserir_todas Nulo [''tea'', ''glove'', ''tea'', ''ash'', ''Tea'']))) \<and>
   set (pistas_de (exibirPistasInOrder (inserir_todas Nulo [''tea'', ''glove'', ''tea'', ''ash'', ''Tea''])))
     = set [''tea'', ''glove'', ''tea'', ''ash'', ''Tea'']"
proof -
  have h: "\<forall>p \<in> set [''tea'', ''glove'', ''tea'', ''ash'', ''Tea'']. cstr p"
    by (simp add: cstr_def NUL_def)
  from C3_em_ordem [OF h] h show ?thesis
    by (simp only: list_all_iff)
qed

lemma inserir_mesma:
  "inserir_todas (No p c Nulo Nulo) (replicate n p) = No p (c + word_of_nat n) Nulo Nulo"
  by (induction n arbitrary: c) (simp_all add: inserir_todas_def strcmp_refl add.assoc)

lemma incrementar_id: "p \<notin> fst ` set xs \<Longrightarrow> map (incrementar p) xs = xs"
  by (induction xs) (auto simp: incrementar_def)

lemma inserir_ausente:
  "p \<notin> fst ` set (nos t) \<Longrightarrow> cstr p \<Longrightarrow> \<forall>x \<in> set (nos t). cstr (fst x) \<Longrightarrow>
     length (nos (inserirPista t p)) = Suc (length (nos t)) \<and>
     set (nos (inserirPista t p)) = insert (p, 1) (set (nos t))"
proof (induction t)
  case Nulo
  then show ?case by (simp add: novoNoPista_def)
next
  case (No k c l r)
  have "p \<noteq> k" "cstr k"
    using No.prems by auto
  then have ne: "strcmp p k \<noteq> 0"
    using No.prems(2) strcmp_eq_0 by blast
  have l: "p \<notin> fst ` set (nos l)" "\<forall>x \<in> set (nos l). cstr (fst x)"
    and r: "p \<notin> fst ` set (nos r)" "\<forall>x \<in> set (nos r). cstr (fst x)"
    using No.prems by auto
  show ?case
  proof (cases "strcmp p k < 0")
    case True
    with ne No.IH(1)[OF l(1) No.prems(2) l(2)] show ?thesis
      by (auto simp: Let_def)
  next
    case False
    with ne No.IH(2)[OF r(1) No.prems(2) r(2)] show ?thesis
      by (auto simp: Let_def)
  qed
qed

lemma inserir_presente:
  "bst t \<Longrightarrow> p \<in> fst ` set (nos t) \<Longrightarrow> cstr p \<Longrightarrow> \<forall>x \<in> set (nos t). cstr (fst x) \<Longrightarrow>
     forma (inserirPista t p) = forma t \<and>
     nos (inserirPista t p) = map (incrementar p) (nos t)"
proof (induction t)
  case Nulo
  then show ?case by simp
next
  case (No k c l r)
  have ck: "cstr k" and cl: "\<forall>x \<in> set (nos l). cstr (fst x)" and cr: "\<forall>x \<in> set (nos r). cstr (fst x)"
    using No.prems by auto
  have bl: "bst l" and br: "bst r"
    and ml: "\<forall>x \<in> set (nos l). menor (fst x) k" and mr: "\<forall>x \<in> set (nos r). menor k (fst x)"
    using No.prems(1) by auto
  have kl: "k \<notin> fst ` set (nos l)" and kr: "k \<notin> fst ` set (nos r)"
    using ml mr menor_irrefl by fastforce+
  consider (eq) "strcmp p k = 0" | (lt) "strcmp p k \<noteq> 0" "strcmp p k < 0"
    | (gt) "strcmp p k \<noteq> 0" "\<not> strcmp p k < 0"
    by blast
  then show ?case
  proof cases
    case eq
    then have "p = k"
      using No.prems(3) ck strcmp_eq_0 by blast
    with eq kl kr show ?thesis
      by (simp add: Let_def incrementar_id) (simp add: incrementar_def)
  next
    case lt
    then have pk: "menor p k" "p \<noteq> k"
      using strcmp_refl by (auto simp: menor_def)
    have "p \<notin> fst ` set (nos r)"
      using mr pk(1) menor_asym by fastforce
    moreover from this pk(2) No.prems(2) have "p \<in> fst ` set (nos l)"
      by auto
    ultimately show ?thesis
      using lt pk(2) No.IH(1)[OF bl _ No.prems(3) cl]
      by (simp add: Let_def incrementar_id) (simp add: incrementar_def)
  next
    case gt
    then have pk: "menor k p" "p \<noteq> k"
      using strcmp_refl nao_menor by auto
    have "p \<notin> fst ` set (nos l)"
      using ml pk(1) menor_asym by fastforce
    moreover from this pk(2) No.prems(2) have "p \<in> fst ` set (nos r)"
      by auto
    ultimately show ?thesis
      using gt pk(2) No.IH(2)[OF br _ No.prems(3) cr]
      by (simp add: Let_def incrementar_id) (simp add: incrementar_def)
  qed
qed

lemma inserir_distintas:
  "distinct ps \<Longrightarrow> set ps \<inter> fst ` set (nos t) = {} \<Longrightarrow> \<forall>p \<in> set ps. cstr p \<Longrightarrow>
   \<forall>x \<in> set (nos t). cstr (fst x) \<Longrightarrow>
     length (nos (inserir_todas t ps)) = length (nos t) + length ps \<and>
     set (nos (inserir_todas t ps)) = set (nos t) \<union> (\<lambda>p. (p, 1)) ` set ps"
proof (induction ps arbitrary: t)
  case Nil
  then show ?case by (simp add: inserir_todas_def)
next
  case (Cons p ps)
  let ?t = "inserirPista t p"
  have p: "p \<notin> fst ` set (nos t)" "cstr p"
    using Cons.prems by auto
  from inserir_ausente[OF p(1) p(2) Cons.prems(4)]
  have a: "length (nos ?t) = Suc (length (nos t))" "set (nos ?t) = insert (p, 1) (set (nos t))"
    by simp_all
  have d: "distinct ps" "\<forall>p \<in> set ps. cstr p"
    using Cons.prems by simp_all
  have i: "set ps \<inter> fst ` set (nos ?t) = {}"
    using Cons.prems(1,2) by (auto simp: a(2))
  have c: "\<forall>x \<in> set (nos ?t). cstr (fst x)"
    using p(2) Cons.prems(4) by (rule cstr_inserir)
  from Cons.IH[OF d(1) i d(2) c] a show ?case
    by (auto simp: inserir_todas_def)
qed

text \<open>Counters as signed numbers: one more is one more below 2147483647, and there the
  counter wraps around.\<close>

lemma sint_mais_um:
  fixes c :: "32 word"
  assumes "sint c < 2147483647"
  shows "sint (c + 1) = sint c + 1"
proof -
  have "- (2 ^ 31) \<le> sint c"
    using sint_ge[of c] by simp
  then have "signed_take_bit 31 (sint c + 1) = sint c + 1"
    using assms by (intro signed_take_bit_int_eq_self) simp_all
  then show ?thesis
    by (simp add: sint_word_ariths)
qed

lemma sint_word_of_nat:
  assumes "n < 2147483648"
  shows "sint (word_of_nat n :: 32 word) = int n"
proof -
  have "signed_take_bit 31 (int n) = int n"
    using assms by (intro signed_take_bit_int_eq_self) simp_all
  then show ?thesis
    by (simp add: signed_of_nat)
qed

lemma inserir_iguais:
  "1 \<le> N \<Longrightarrow> inserir_todas Nulo (replicate N q) = No q (word_of_nat N) Nulo Nulo"
proof -
  assume "1 \<le> N"
  then obtain n where "N = Suc n"
    by (cases N) simp_all
  then show ?thesis
    using inserir_mesma[of q 1 n] by (simp add: inserir_todas_def novoNoPista_def)
qed

lemma contagens_presente:
  assumes "nos (inserirPista t p) = map (incrementar p) (nos t)"
    and "\<forall>x \<in> set (contagens t). fst x = p \<longrightarrow> snd x < 2147483647"
  shows "contagens (inserirPista t p) = map (incrementar p) (contagens t)"
proof -
  have "(fst (incrementar p x), sint (snd (incrementar p x)))
          = incrementar p (fst x, sint (snd x))" if "x \<in> set (nos t)" for x
  proof (cases "fst x = p")
    case True
    have "(fst x, sint (snd x)) \<in> set (contagens t)"
      using that by (auto simp: contagens_def)
    with True assms(2) have "sint (snd x) < 2147483647"
      by fastforce
    with True show ?thesis
      by (simp add: incrementar_def sint_mais_um)
  next
    case False
    then show ?thesis
      by (simp add: incrementar_def)
  qed
  then show ?thesis
    by (simp add: contagens_def assms(1))
qed

text \<open>C4 (as amended). From the empty ledger, \<open>N\<close> insertions of one clue, for \<open>N\<close> from 1 to
  2147483647, give a single node whose count is \<open>N\<close>; the insertion of \<open>K\<close> pairwise distinct
  clues gives \<open>K\<close> nodes, one for each clue, every count 1; and the insertion of a clue
  already in a ledger, with a count below 2147483647, leaves the shape and the keys of the
  tree as they are and adds one to the count of that clue only (a ledger is a search tree:
  \<open>inserir_todas_inv\<close>).\<close>

theorem C4_contadores:
  "(1 \<le> N \<and> N < 2147483648 \<longrightarrow>
      forma (inserir_todas Nulo (replicate N q)) = No q 0 Nulo Nulo \<and>
      contagens (inserir_todas Nulo (replicate N q)) = [(q, int N)]) \<and>
   (distinct ps \<and> (\<forall>p \<in> set ps. cstr p) \<longrightarrow>
      length (contagens (inserir_todas Nulo ps)) = length ps \<and>
      (\<forall>x \<in> set (contagens (inserir_todas Nulo ps)). snd x = 1) \<and>
      fst ` set (contagens (inserir_todas Nulo ps)) = set ps) \<and>
   (bst t \<and> (\<forall>x \<in> set (nos t). cstr (fst x)) \<and> cstr p \<and> p \<in> fst ` set (nos t) \<and>
    (\<forall>x \<in> set (contagens t). fst x = p \<longrightarrow> snd x < 2147483647) \<longrightarrow>
      forma (inserirPista t p) = forma t \<and>
      contagens (inserirPista t p) = map (incrementar p) (contagens t))"
proof (intro conjI impI)
  assume a: "1 \<le> N \<and> N < 2147483648"
  then have t: "inserir_todas Nulo (replicate N q) = No q (word_of_nat N) Nulo Nulo"
    by (simp add: inserir_iguais)
  show "forma (inserir_todas Nulo (replicate N q)) = No q 0 Nulo Nulo"
    by (simp add: t)
  show "contagens (inserir_todas Nulo (replicate N q)) = [(q, int N)]"
    using a by (simp add: t contagens_def sint_word_of_nat)
next
  assume a: "distinct ps \<and> (\<forall>p \<in> set ps. cstr p)"
  then have r: "length (nos (inserir_todas Nulo ps)) = length ps"
      "set (nos (inserir_todas Nulo ps)) = (\<lambda>p. (p, 1)) ` set ps"
    using inserir_distintas[of ps Nulo] by simp_all
  show "length (contagens (inserir_todas Nulo ps)) = length ps"
    by (simp add: contagens_def r(1))
  show "\<forall>x \<in> set (contagens (inserir_todas Nulo ps)). snd x = 1"
    by (auto simp: contagens_def r(2))
  show "fst ` set (contagens (inserir_todas Nulo ps)) = set ps"
    by (force simp: contagens_def r(2))
next
  assume a: "bst t \<and> (\<forall>x \<in> set (nos t). cstr (fst x)) \<and> cstr p \<and> p \<in> fst ` set (nos t) \<and>
    (\<forall>x \<in> set (contagens t). fst x = p \<longrightarrow> snd x < 2147483647)"
  then have i: "forma (inserirPista t p) = forma t \<and> nos (inserirPista t p) = map (incrementar p) (nos t)"
    using inserir_presente[of t p] by blast
  then show "forma (inserirPista t p) = forma t"
    by simp
  from i a show "contagens (inserirPista t p) = map (incrementar p) (contagens t)"
    by (intro contagens_presente) simp_all
qed

theorem C4_contadores_witness:
  "(1 \<le> (3::nat) \<and> (3::nat) < 2147483648 \<and>
      inserir_todas Nulo (replicate 3 ''tea'') = No ''tea'' 3 Nulo Nulo \<and>
      contagens (inserir_todas Nulo (replicate 3 ''tea'')) = [(''tea'', 3)]) \<and>
   (distinct [''tea'', ''glove'', ''ash''] \<and> list_all cstr [''tea'', ''glove'', ''ash''] \<and>
      length (contagens (inserir_todas Nulo [''tea'', ''glove'', ''ash''])) = 3 \<and>
      list_all (\<lambda>x. snd x = 1) (contagens (inserir_todas Nulo [''tea'', ''glove'', ''ash'']))) \<and>
   (bst (No ''glove'' 1 (No ''ash'' 2 Nulo Nulo) (No ''tea'' 1 Nulo Nulo)) \<and>
      cstr ''ash'' \<and>
      ''ash'' \<in> fst ` set (nos (No ''glove'' 1 (No ''ash'' 2 Nulo Nulo) (No ''tea'' 1 Nulo Nulo))) \<and>
      contagens (No ''glove'' 1 (No ''ash'' 2 Nulo Nulo) (No ''tea'' 1 Nulo Nulo))
        = [(''ash'', 2), (''glove'', 1), (''tea'', 1)] \<and>
      inserirPista (No ''glove'' 1 (No ''ash'' 2 Nulo Nulo) (No ''tea'' 1 Nulo Nulo)) ''ash''
        = No ''glove'' 1 (No ''ash'' 3 Nulo Nulo) (No ''tea'' 1 Nulo Nulo) \<and>
      contagens (inserirPista (No ''glove'' 1 (No ''ash'' 2 Nulo Nulo) (No ''tea'' 1 Nulo Nulo)) ''ash'')
        = [(''ash'', 3), (''glove'', 1), (''tea'', 1)])"
proof -
  let ?ps = "[''tea'', ''glove'', ''ash'']"
  let ?t = "No ''glove'' 1 (No ''ash'' 2 Nulo Nulo) (No ''tea'' 1 Nulo Nulo)"
  have h2: "distinct ?ps \<and> (\<forall>p \<in> set ?ps. cstr p)"
    by (simp add: cstr_def NUL_def)
  have c: "contagens ?t = [(''ash'', 2), (''glove'', 1), (''tea'', 1)]"
    by (simp add: contagens_def)
  have h3: "bst ?t \<and> (\<forall>x \<in> set (nos ?t). cstr (fst x)) \<and> cstr ''ash'' \<and> ''ash'' \<in> fst ` set (nos ?t) \<and>
      (\<forall>x \<in> set (contagens ?t). fst x = ''ash'' \<longrightarrow> snd x < 2147483647)"
    by (simp add: c) (simp add: cstr_def NUL_def menor_def)
  have e: "inserirPista ?t ''ash'' = No ''glove'' 1 (No ''ash'' 3 Nulo Nulo) (No ''tea'' 1 Nulo Nulo)"
    "inserir_todas Nulo (replicate 3 ''tea'') = No ''tea'' 3 Nulo Nulo"
    by code_simp+
  from C4_contadores [of 3 "''tea''" ?ps ?t "''ash''"] h2 h3 e c show ?thesis
    by (simp add: list_all_iff incrementar_def)
qed

text \<open>Against C4 as stated: after \<open>2 ^ 31\<close> insertions of one clue the count of its node is not
  \<open>2 ^ 31\<close> but -2147483648, and the insertion of a clue whose count is 2147483647 does not
  add one to it.\<close>

theorem C4_counterexample:
  "contagens (inserir_todas Nulo (replicate 2147483648 ''A'')) = [(''A'', - 2147483648)] \<and>
   contagens (No ''A'' 2147483647 Nulo Nulo) = [(''A'', 2147483647)] \<and>
   contagens (inserirPista (No ''A'' 2147483647 Nulo Nulo) ''A'') = [(''A'', - 2147483648)]"
proof -
  have "inserir_todas Nulo (replicate 2147483648 ''A'')
          = No ''A'' (word_of_nat 2147483648) Nulo Nulo"
    by (rule inserir_iguais) simp
  then have "contagens (inserir_todas Nulo (replicate 2147483648 ''A''))
          = contagens (No ''A'' (word_of_nat 2147483648) Nulo Nulo)"
    by (rule arg_cong)
  also have "\<dots> = [(''A'', - 2147483648)]"
    by (simp add: contagens_def)
  finally have 1: "contagens (inserir_todas Nulo (replicate 2147483648 ''A'')) = [(''A'', - 2147483648)]" .
  have 2: "contagens (No ''A'' 2147483647 Nulo Nulo) = [(''A'', 2147483647)]"
    by (simp add: contagens_def)
  have "inserirPista (No ''A'' 2147483647 Nulo Nulo) ''A'' = No ''A'' 2147483648 Nulo Nulo"
    by (simp add: strcmp_refl)
  then have 3: "contagens (inserirPista (No ''A'' 2147483647 Nulo Nulo) ''A'') = [(''A'', - 2147483648)]"
    by (simp add: contagens_def)
  from 1 2 3 show ?thesis
    by (intro conjI)
qed

subsection \<open>Properties of the association table\<close>

lemma percorrer_map_of:
  "cstr p \<Longrightarrow> \<forall>x \<in> set xs. cstr (fst x) \<Longrightarrow> percorrer xs p = map_of xs p"
proof (induction xs)
  case Nil
  then show ?case by simp
next
  case (Cons x xs)
  obtain k v where x: "x = (k, v)"
    by (cases x)
  have "(strcmp k p = 0) = (k = p)"
    using Cons.prems x strcmp_eq_0[of k p] strcmp_refl by auto
  with Cons x show ?case
    by simp
qed

lemma map_of_balde:
  "map_of (filter (\<lambda>x. indice (fst x) = indice p) xs) p = map_of xs p"
  by (induction xs) auto

lemma balde_inserir_todas:
  "inserir_na_hash_todas tab kvs h = filter (\<lambda>x. indice (fst x) = h) (rev kvs) @ tab h"
  by (induction kvs arbitrary: tab) (auto simp: inserir_na_hash_todas_def inserirNaHash_def Let_def)

text \<open>A table built from suspects that are C strings resolves every clue to a C string,
  or to nothing.\<close>

lemma percorrer_Some: "percorrer xs p = Some v \<Longrightarrow> v \<in> snd ` set xs"
  by (induction xs) (auto split: if_splits)

lemma resolve_cstr_tabela:
  assumes "\<forall>x \<in> set kvs. cstr (snd x)"
  shows "resolve_cstr (inserir_na_hash_todas tabela_vazia kvs) k"
proof (cases "encontrarSuspeito (inserir_na_hash_todas tabela_vazia kvs) k")
  case None
  then show ?thesis by (simp add: resolve_cstr_def)
next
  case (Some v)
  then have "percorrer (filter (\<lambda>x. indice (fst x) = indice k) (rev kvs)) k = Some v"
    by (simp add: encontrarSuspeito_def balde_inserir_todas tabela_vazia_def)
  then have "v \<in> snd ` set (filter (\<lambda>x. indice (fst x) = indice k) (rev kvs))"
    by (rule percorrer_Some)
  then have "cstr v"
    using assms by auto
  with Some show ?thesis by (simp add: resolve_cstr_def)
qed

text \<open>C5. After any sequence of insertions into the empty table, \<^verbatim>\<open>encontrarSuspeito\<close> returns
  for a clue the suspect of the entry inserted last with exactly that clue as its key,
  and nothing (\<^verbatim>\<open>NULL\<close>) for a clue that was never inserted.\<close>

theorem C5_lookup:
  assumes "cstr p" and "\<forall>x \<in> set kvs. cstr (fst x)"
  shows "encontrarSuspeito (inserir_na_hash_todas tabela_vazia kvs) p = map_of (rev kvs) p \<and>
         (p \<notin> fst ` set kvs \<longrightarrow>
            encontrarSuspeito (inserir_na_hash_todas tabela_vazia kvs) p = None)"
proof -
  let ?b = "filter (\<lambda>x. indice (fst x) = indice p) (rev kvs)"
  have "\<forall>x \<in> set ?b. cstr (fst x)"
    using assms(2) by simp
  then have "percorrer ?b p = map_of ?b p"
    using assms(1) by (intro percorrer_map_of)
  then have 1: "encontrarSuspeito (inserir_na_hash_todas tabela_vazia kvs) p = map_of (rev kvs) p"
    by (simp add: encontrarSuspeito_def balde_inserir_todas tabela_vazia_def map_of_balde)
  then show ?thesis
    by (simp add: map_of_eq_None_iff)
qed

theorem C5_lookup_witness:
  "cstr ''tea'' \<and> cstr ''ash'' \<and>
   list_all (\<lambda>x. cstr (fst x)) [(''tea'', ''Jones''), (''glove'', ''Smith''), (''tea'', ''Brown'')] \<and>
   encontrarSuspeito (inserir_na_hash_todas tabela_vazia
       [(''tea'', ''Jones''), (''glove'', ''Smith''), (''tea'', ''Brown'')]) ''tea'' = Some ''Brown'' \<and>
   encontrarSuspeito (inserir_na_hash_todas tabela_vazia
       [(''tea'', ''Jones''), (''glove'', ''Smith''), (''tea'', ''Brown'')]) ''ash'' = None"
proof -
  let ?kvs = "[(''tea'', ''Jones''), (''glove'', ''Smith''), (''tea'', ''Brown'')]"
  have h1: "cstr ''tea''" and h1': "cstr ''ash''"
    by (simp_all add: cstr_def NUL_def)
  have h2: "\<forall>x \<in> set ?kvs. cstr (fst x)"
    by (simp add: cstr_def NUL_def)
  from C5_lookup [OF h1 h2] C5_lookup [OF h1' h2] h1 h1' h2 show ?thesis
    by simp
qed

subsection \<open>Properties of the accusation\<close>

lemma soma_word_of_int:
  fixes ws :: "32 word list"
  shows "sum_list ws = word_of_int (sum_list (map sint ws))"
  by (induction ws) simp_all

lemma sint_soma:
  fixes ws :: "32 word list"
  assumes "- 2147483648 \<le> sum_list (map sint ws)" and "sum_list (map sint ws) < 2147483648"
  shows "sint (sum_list ws) = sum_list (map sint ws)"
proof -
  have "signed_take_bit 31 (sum_list (map sint ws)) = sum_list (map sint ws)"
    using assms by (intro signed_take_bit_int_eq_self) simp_all
  moreover have "sint (sum_list ws) = signed_take_bit 31 (sum_list (map sint ws))"
    by (subst soma_word_of_int) (simp add: signed_of_int)
  ultimately show ?thesis
    by simp
qed

lemma contagens_filtradas:
  "map snd (filter (\<lambda>x. P (fst x)) (contagens t)) = map sint (map snd (filter (\<lambda>x. P (fst x)) (nos t)))"
  by (simp add: contagens_def filter_map comp_def)

lemma contar_soma:
  assumes "cstr alvo" and "\<forall>x \<in> set (nos t). resolve_cstr tab (fst x)"
  shows "contarPistasQueApontam tab t alvo =
         sum_list (map snd (filter (\<lambda>x. encontrarSuspeito tab (fst x) = Some alvo) (nos t)))"
  using assms(2)
proof (induction t)
  case Nulo
  then show ?case by simp
next
  case (No k c l r)
  have "resolve_cstr tab k"
    using No.prems by simp
  then have "(case encontrarSuspeito tab k of None \<Rightarrow> 0 | Some sus \<Rightarrow> if strcmp sus alvo = 0 then 0 + c else 0)
           = (if encontrarSuspeito tab k = Some alvo then c else 0)"
    using assms(1) strcmp_eq_0[of _ alvo] strcmp_refl[of alvo]
    by (auto simp: resolve_cstr_def split: option.splits)
  moreover have "contarPistasQueApontam tab l alvo =
         sum_list (map snd (filter (\<lambda>x. encontrarSuspeito tab (fst x) = Some alvo) (nos l)))"
     "contarPistasQueApontam tab r alvo =
         sum_list (map snd (filter (\<lambda>x. encontrarSuspeito tab (fst x) = Some alvo) (nos r)))"
    using No by simp_all
  ultimately show ?case
    by (simp add: Let_def)
qed

text \<open>C1 (as amended). \<^verbatim>\<open>contarPistasQueApontam\<close> returns the sum, in the arithmetic of \<^verbatim>\<open>int\<close>,
  of the counters of all the nodes of the ledger, in both subtrees of every node, whose
  clue the table resolves to a suspect equal to the target; a node whose clue the table
  does not know adds nothing. Whenever the sum of those counts is an \<^verbatim>\<open>int\<close>, from
  -2147483648 to 2147483647, the number returned is that sum.\<close>

theorem C1_contagem:
  assumes "cstr alvo" and "\<forall>x \<in> set (nos t). resolve_cstr tab (fst x)"
  shows "contarPistasQueApontam tab t alvo =
           sum_list (map snd (filter (\<lambda>x. encontrarSuspeito tab (fst x) = Some alvo) (nos t))) \<and>
         (- 2147483648 \<le>
            sum_list (map snd (filter (\<lambda>x. encontrarSuspeito tab (fst x) = Some alvo) (contagens t))) \<and>
          sum_list (map snd (filter (\<lambda>x. encontrarSuspeito tab (fst x) = Some alvo) (contagens t)))
            < 2147483648 \<longrightarrow>
          sint (contarPistasQueApontam tab t alvo) =
            sum_list (map snd (filter (\<lambda>x. encontrarSuspeito tab (fst x) = Some alvo) (contagens t))))"
proof (intro conjI impI)
  let ?ws = "map snd (filter (\<lambda>x. encontrarSuspeito tab (fst x) = Some alvo) (nos t))"
  show w: "contarPistasQueApontam tab t alvo = sum_list ?ws"
    using assms by (rule contar_soma)
  have c: "map snd (filter (\<lambda>x. encontrarSuspeito tab (fst x) = Some alvo) (contagens t)) = map sint ?ws"
    by (rule contagens_filtradas)
  assume "- 2147483648 \<le>
            sum_list (map snd (filter (\<lambda>x. encontrarSuspeito tab (fst x) = Some alvo) (contagens t))) \<and>
          sum_list (map snd (filter (\<lambda>x. encontrarSuspeito tab (fst x) = Some alvo) (contagens t)))
            < 2147483648"
  then have "- 2147483648 \<le> sum_list (map sint ?ws)" "sum_list (map sint ?ws) < 2147483648"
    by (simp_all only: c)
  then have "sint (sum_list ?ws) = sum_list (map sint ?ws)"
    by (rule sint_soma)
  then show "sint (contarPistasQueApontam tab t alvo) =
            sum_list (map snd (filter (\<lambda>x. encontrarSuspeito tab (fst x) = Some alvo) (contagens t)))"
    by (simp only: w c)
qed

theorem C1_contagem_witness:
  "cstr ''X'' \<and> list_all (\<lambda>x. resolve_cstr tabela_exemplo (fst x)) (nos ledger_exemplo) \<and>
   contagens ledger_exemplo = [(''A'', 2), (''B'', 1), (''C'', 1)] \<and>
   map snd (filter (\<lambda>x. encontrarSuspeito tabela_exemplo (fst x) = Some ''X'')
              (contagens ledger_exemplo)) = [2, 1] \<and>
   sint (contarPistasQueApontam tabela_exemplo ledger_exemplo ''X'') = 3 \<and>
   cstr ''Z'' \<and>
   map snd (filter (\<lambda>x. encontrarSuspeito tabela_exemplo (fst x) = Some ''Z'')
              (contagens ledger_exemplo)) = [] \<and>
   sint (contarPistasQueApontam tabela_exemplo ledger_exemplo ''Z'') = 0"
proof -
  have h1: "cstr ''X''" "cstr ''Z''"
    by (simp_all add: cstr_def NUL_def)
  have h2: "\<forall>x \<in> set (nos ledger_exemplo). resolve_cstr tabela_exemplo (fst x)"
    by code_simp
  have e: "contagens ledger_exemplo = [(''A'', 2), (''B'', 1), (''C'', 1)]"
    by code_simp
  have f: "map snd (filter (\<lambda>x. encontrarSuspeito tabela_exemplo (fst x) = Some ''X'')
              (contagens ledger_exemplo)) = [2, 1]"
    "map snd (filter (\<lambda>x. encontrarSuspeito tabela_exemplo (fst x) = Some ''Z'')
              (contagens ledger_exemplo)) = []"
    by code_simp+
  have x: "sint (contarPistasQueApontam tabela_exemplo ledger_exemplo ''X'') = 3"
    using C1_contagem [OF h1(1) h2, THEN conjunct2] unfolding f by simp
  have z: "sint (contarPistasQueApontam tabela_exemplo ledger_exemplo ''Z'') = 0"
    using C1_contagem [OF h1(2) h2, THEN conjunct2] unfolding f by simp
  from h1 h2 e f x z show ?thesis
    by (simp only: list_all_iff)
qed

text \<open>Against C1 as stated: in a ledger whose clues \<open>A\<close> and \<open>C\<close>, both pointing at \<open>X\<close>, were
  collected \<open>2 ^ 30\<close> times each, the counts add up to \<open>2 ^ 31\<close>, and the number returned for
  \<open>X\<close> is -2147483648.\<close>

theorem C1_counterexample:
  "bst ledger_cheio \<and>
   contagens ledger_cheio = [(''A'', 1073741824), (''C'', 1073741824)] \<and>
   encontrarSuspeito tabela_exemplo ''A'' = Some ''X'' \<and>
   encontrarSuspeito tabela_exemplo ''C'' = Some ''X'' \<and>
   sint (contarPistasQueApontam tabela_exemplo ledger_cheio ''X'') = - 2147483648"
proof -
  have 1: "bst ledger_cheio"
    by (simp add: ledger_cheio_def menor_def)
  have 2: "contagens ledger_cheio = [(''A'', 1073741824), (''C'', 1073741824)]"
    by (simp add: ledger_cheio_def contagens_def)
  have 3: "encontrarSuspeito tabela_exemplo ''A'' = Some ''X''"
    "encontrarSuspeito tabela_exemplo ''C'' = Some ''X''"
    by code_simp+
  have "contarPistasQueApontam tabela_exemplo ledger_cheio ''X'' = 2147483648"
    by (simp add: ledger_cheio_def 3 Let_def)
  then have 4: "sint (contarPistasQueApontam tabela_exemplo ledger_cheio ''X'') = - 2147483648"
    by simp
  from 1 2 3 4 show ?thesis
    by (intro conjI)
qed

text \<open>C2. An accusation that is not empty is answered by the number of clues that point at
  the accused and by a verdict: sustained exactly when that number is at least 2, weak
  otherwise.\<close>

theorem C2_veredito:
  assumes "ler_acusacao entrada \<noteq> []"
  shows "fase_acusacao tab root entrada =
           [MsgAcusou (ler_acusacao entrada),
            MsgNumero (ler_acusacao entrada)
              (sint (contarPistasQueApontam tab root (ler_acusacao entrada))),
            if 2 \<le> sint (contarPistasQueApontam tab root (ler_acusacao entrada))
            then MsgSustentada else MsgFraca]
         \<and> (MsgSustentada \<in> set (fase_acusacao tab root entrada)
              \<longleftrightarrow> 2 \<le> sint (contarPistasQueApontam tab root (ler_acusacao entrada)))
         \<and> (MsgFraca \<in> set (fase_acusacao tab root entrada)
              \<longleftrightarrow> sint (contarPistasQueApontam tab root (ler_acusacao entrada)) < 2)"
  using assms by (auto simp: fase_acusacao_def Let_def)

theorem C2_veredito_witness:
  "ler_acusacao ''X\<newline>'' \<noteq> [] \<and>
   fase_acusacao tabela_exemplo (inserir_todas Nulo [''A'', ''A'']) ''X\<newline>''
     = [MsgAcusou ''X'', MsgNumero ''X'' 2, MsgSustentada] \<and>
   ler_acusacao ''Y\<newline>'' \<noteq> [] \<and>
   fase_acusacao tabela_exemplo ledger_exemplo ''Y\<newline>''
     = [MsgAcusou ''Y'', MsgNumero ''Y'' 1, MsgFraca] \<and>
   ler_acusacao ''Z'' \<noteq> [] \<and>
   fase_acusacao tabela_exemplo ledger_exemplo ''Z''
     = [MsgAcusou ''Z'', MsgNumero ''Z'' 0, MsgFraca]"
proof -
  have l: "ler_acusacao ''X\<newline>'' = ''X''" "ler_acusacao ''Y\<newline>'' = ''Y''" "ler_acusacao ''Z'' = ''Z''"
    by code_simp+
  have h: "ler_acusacao ''X\<newline>'' \<noteq> []" "ler_acusacao ''Y\<newline>'' \<noteq> []" "ler_acusacao ''Z'' \<noteq> []"
    by (simp_all add: l)
  have v: "contarPistasQueApontam tabela_exemplo (inserir_todas Nulo [''A'', ''A'']) ''X'' = 2"
    "contarPistasQueApontam tabela_exemplo ledger_exemplo ''Y'' = 1"
    "contarPistasQueApontam tabela_exemplo ledger_exemplo ''Z'' = 0"
    by code_simp+
  from C2_veredito [OF h(1), of tabela_exemplo "inserir_todas Nulo [''A'', ''A'']"]
    C2_veredito [OF h(2), of tabela_exemplo ledger_exemplo]
    C2_veredito [OF h(3), of tabela_exemplo ledger_exemplo] h
  show ?thesis
    by (simp add: l v)
qed

text \<open>The accusation read is empty exactly when the input is at its end, or begins with a
  newline or with a NUL byte.\<close>

lemma ler_acusacao_vazia:
  "(ler_acusacao entrada = []) = (take 1 entrada = [] \<or> take 1 entrada = [NL] \<or> take 1 entrada = [NUL])"
proof (cases entrada)
  case Nil
  then show ?thesis
    by (simp add: ler_acusacao_def fgets_def trim_nl_def)
next
  case (Cons c cs)
  have nl: "NL \<noteq> NUL"
    by (simp add: NL_def NUL_def)
  consider (a) "c = NL" | (b) "c = NUL" | (c) "c \<noteq> NL" "c \<noteq> NUL"
    by blast
  then show ?thesis
  proof cases
    case a
    with Cons nl show ?thesis
      by (simp add: ler_acusacao_def fgets_def trim_nl_vazia)
  next
    case b
    with Cons nl show ?thesis
      by (simp add: ler_acusacao_def fgets_def trim_nl_vazia Let_def)
  next
    case c
    with Cons nl show ?thesis
      by (simp add: ler_acusacao_def fgets_def trim_nl_vazia Let_def)
  qed
qed

text \<open>C6. An empty accusation is answered by the message that no name was given and by
  nothing else: no count of clues and no verdict, whatever the ledger and the table hold.\<close>

theorem C6_sem_acusacao:
  assumes "ler_acusacao entrada = []"
  shows "fase_acusacao tab root entrada = [MsgSemNome] \<and>
         MsgFraca \<notin> set (fase_acusacao tab root entrada) \<and>
         MsgNumero [] 0 \<notin> set (fase_acusacao tab root entrada)"
  using assms by (simp add: fase_acusacao_def)

theorem C6_sem_acusacao_witness:
  "ler_acusacao ''\<newline>'' = [] \<and>
   fase_acusacao tabela_exemplo ledger_exemplo ''\<newline>'' = [MsgSemNome] \<and>
   ler_acusacao [] = [] \<and>
   fase_acusacao tabela_exemplo ledger_exemplo [] = [MsgSemNome]"
proof -
  have h: "ler_acusacao ''\<newline>'' = []" "ler_acusacao [] = []"
    by code_simp+
  from C6_sem_acusacao [OF h(1), of tabela_exemplo ledger_exemplo]
    C6_sem_acusacao [OF h(2), of tabela_exemplo ledger_exemplo] h
  show ?thesis
    by simp
qed

subsection \<open>Properties of the exploration\<close>

lemma imprimir_campos:
  "salas (imprimir ms s) = salas s" "atual (imprimir ms s) = atual s"
  "rootPistas (imprimir ms s) = rootPistas s" "saida (imprimir ms s) = saida s @ ms"
  by (simp_all add: imprimir_def)

lemma mesma_sala_refl: "mesma_sala r r"
  by (simp add: mesma_sala_def)

lemma mesma_sala_trans: "mesma_sala r r' \<Longrightarrow> mesma_sala r' r'' \<Longrightarrow> mesma_sala r r''"
  by (simp add: mesma_sala_def)

lemma visitar_sala:
  assumes "visitar s = Inr s'" and "salas s a = Some r"
  shows "atual s' = atual s \<and> (\<exists>r'. salas s' a = Some r' \<and> mesma_sala r r')"
  using assms
  by (auto simp: visitar_def Let_def imprimir_def mesma_sala_def split: option.splits if_splits)

lemma visitar_coletada:
  assumes "visitar s = Inr s'" and "salas s (atual s) = Some r" and "pistaColetada r \<noteq> 0 \<or> pista r = None"
  shows "rootPistas s' = rootPistas s \<and> salas s' = salas s \<and> atual s' = atual s"
  using assms
  by (auto simp: visitar_def Let_def imprimir_def split: option.splits if_splits)

lemma comando_campos:
  assumes "comando linha s = Inr (c, s')"
  shows "salas s' = salas s \<and> rootPistas s' = rootPistas s"
  using assms
  by (auto simp: comando_def Let_def imprimir_def split: option.splits if_splits list.splits)

lemma iteracao_sala:
  assumes "iteracao s entrada = Inr (c, s', resto)" and "salas s a = Some r"
  shows "\<exists>r'. salas s' a = Some r' \<and> mesma_sala r r'"
proof -
  from assms(1) obtain s1 where v: "visitar s = Inr s1"
    by (auto simp: iteracao_def split: sum.splits)
  from visitar_sala[OF v assms(2)] obtain r' where r': "salas s1 a = Some r'" "mesma_sala r r'"
    by blast
  have "salas s' = salas s1"
    using assms(1) v comando_campos
    by (auto simp: iteracao_def Let_def imprimir_campos split: option.splits sum.splits prod.splits)
  with r' show ?thesis
    by simp
qed

lemma laco_sala:
  "explorar_laco s entrada = Inr (s', resto) \<Longrightarrow> salas s a = Some r \<Longrightarrow>
   \<exists>r'. salas s' a = Some r' \<and> mesma_sala r r'"
proof (induction s entrada arbitrary: r rule: explorar_laco.induct)
  case (1 s entrada)
  from "1.prems"(1) obtain c s1 resto1 where it: "iteracao s entrada = Inr (c, s1, resto1)"
    by (subst (asm) explorar_laco.simps) (auto split: sum.splits)
  from iteracao_sala[OF it "1.prems"(2)] obtain r1 where r1: "salas s1 a = Some r1" "mesma_sala r r1"
    by blast
  show ?case
  proof (cases c)
    case Sair
    with it "1.prems"(1) have "s' = s1"
      by (subst (asm) explorar_laco.simps) simp
    with r1 show ?thesis by blast
  next
    case Continuar
    with it "1.prems"(1) have "explorar_laco s1 resto1 = Inr (s', resto)"
      by (subst (asm) explorar_laco.simps) simp
    from "1.IH"[OF it refl _ refl this r1(1)] Continuar
    obtain r' where "salas s' a = Some r'" "mesma_sala r1 r'"
      by auto
    with r1(2) show ?thesis
      using mesma_sala_trans by blast
  qed
qed


lemma visitar_ja_coletada:
  assumes "salas s (atual s) = Some r" and "pista r = Some p" and "pistaColetada r \<noteq> 0"
  shows "visitar s = Inr (imprimir [MsgSala (nome r), MsgJaColetada] s)"
  using assms by (simp add: visitar_def Let_def imprimir_def)

lemma iteracao_coletada:
  assumes "iteracao s entrada = Inr (c, s', resto)" and "salas s (atual s) = Some r"
    and "pistaColetada r \<noteq> 0"
  shows "rootPistas s' = rootPistas s \<and> salas s' = salas s"
proof -
  from assms(1) obtain s1 where v: "visitar s = Inr s1"
    by (auto simp: iteracao_def split: sum.splits)
  from visitar_coletada[OF v assms(2)] assms(3) have 1: "rootPistas s1 = rootPistas s" "salas s1 = salas s"
    by simp_all
  have "salas s' = salas s1 \<and> rootPistas s' = rootPistas s1"
    using assms(1) v comando_campos
    by (auto simp: iteracao_def Let_def imprimir_campos split: option.splits sum.splits prod.splits)
  with 1 show ?thesis
    by simp
qed

lemma visitar_coleta:
  assumes "salas s (atual s) = Some r" and "pista r = Some p" and "pistaColetada r = 0"
  shows "visitar s =
           Inr ((imprimir [MsgSala (nome r), MsgPistaEncontrada p] s)
                  \<lparr>rootPistas := inserirPista (rootPistas s) p,
                   salas := (salas s)(atual s \<mapsto> r\<lparr>pistaColetada := 1\<rparr>)\<rparr>)"
  using assms by (simp add: visitar_def Let_def imprimir_def)

lemma visitar_casos:
  assumes "visitar s = Inr s1"
  shows "(salas s1 = salas s \<and> rootPistas s1 = rootPistas s) \<or>
         (\<exists>r p. salas s (atual s) = Some r \<and> pista r = Some p \<and> pistaColetada r = 0 \<and>
            salas s1 = (salas s)(atual s \<mapsto> r\<lparr>pistaColetada := 1\<rparr>) \<and>
            rootPistas s1 = inserirPista (rootPistas s) p)"
  using assms
  by (auto simp: visitar_def Let_def imprimir_def split: option.splits if_splits)

lemma iteracao_casos:
  assumes "iteracao s entrada = Inr (c, s1, resto1)"
  shows "(salas s1 = salas s \<and> rootPistas s1 = rootPistas s) \<or>
         (\<exists>r p. salas s (atual s) = Some r \<and> pista r = Some p \<and> pistaColetada r = 0 \<and>
            salas s1 = (salas s)(atual s \<mapsto> r\<lparr>pistaColetada := 1\<rparr>) \<and>
            rootPistas s1 = inserirPista (rootPistas s) p)"
proof -
  from assms obtain s0 where v: "visitar s = Inr s0"
    by (auto simp: iteracao_def split: sum.splits)
  have "salas s1 = salas s0 \<and> rootPistas s1 = rootPistas s0"
    using assms v comando_campos
    by (auto simp: iteracao_def Let_def imprimir_campos split: option.splits sum.splits prod.splits)
  with visitar_casos[OF v] show ?thesis
    by simp
qed

lemma coleta_mesmas_salas: "salas s1 = salas s \<Longrightarrow> coleta s1 s' x = coleta s s' x"
  by (simp add: coleta_def)

lemma laco_coletas:
  "explorar_laco s entrada = Inr (s', resto) \<Longrightarrow>
   \<exists>cs. distinct (map fst cs) \<and> list_all (coleta s s') cs \<and>
        rootPistas s' = inserir_todas (rootPistas s) (map snd cs)"
proof (induction s entrada rule: explorar_laco.induct)
  case (1 s entrada)
  from "1.prems" obtain c s1 resto1 where it: "iteracao s entrada = Inr (c, s1, resto1)"
    by (subst (asm) explorar_laco.simps) (auto split: sum.splits)
  have fim: "\<exists>cs. distinct (map fst cs) \<and> list_all (coleta s1 s') cs \<and>
        rootPistas s' = inserir_todas (rootPistas s1) (map snd cs) \<and>
        (\<forall>a q. salas s1 a = Some q \<longrightarrow> (\<exists>q'. salas s' a = Some q' \<and> mesma_sala q q'))"
  proof (cases c)
    case Sair
    with it "1.prems" have "s' = s1"
      by (subst (asm) explorar_laco.simps) simp
    then have "distinct (map fst []) \<and> list_all (coleta s1 s') [] \<and>
        rootPistas s' = inserir_todas (rootPistas s1) (map snd []) \<and>
        (\<forall>a q. salas s1 a = Some q \<longrightarrow> (\<exists>q'. salas s' a = Some q' \<and> mesma_sala q q'))"
      by (simp add: inserir_todas_def mesma_sala_refl)
    then show ?thesis
      by blast
  next
    case Continuar
    with it "1.prems" have l: "explorar_laco s1 resto1 = Inr (s', resto)"
      by (subst (asm) explorar_laco.simps) simp
    from "1.IH"[OF it refl _ refl l] Continuar
    obtain cs where "distinct (map fst cs)" "list_all (coleta s1 s') cs"
      "rootPistas s' = inserir_todas (rootPistas s1) (map snd cs)"
      by auto
    moreover have "\<forall>a q. salas s1 a = Some q \<longrightarrow> (\<exists>q'. salas s' a = Some q' \<and> mesma_sala q q')"
      using laco_sala[OF l] by blast
    ultimately show ?thesis
      by blast
  qed
  then obtain cs where cs: "distinct (map fst cs)" "list_all (coleta s1 s') cs"
      "rootPistas s' = inserir_todas (rootPistas s1) (map snd cs)"
    and m: "\<And>a q. salas s1 a = Some q \<Longrightarrow> \<exists>q'. salas s' a = Some q' \<and> mesma_sala q q'"
    by blast
  from iteracao_casos[OF it] show ?case
  proof
    assume "salas s1 = salas s \<and> rootPistas s1 = rootPistas s"
    with cs show ?thesis
      by (auto simp: coleta_mesmas_salas[of s1 s] list_all_iff)
  next
    assume "\<exists>r p. salas s (atual s) = Some r \<and> pista r = Some p \<and> pistaColetada r = 0 \<and>
            salas s1 = (salas s)(atual s \<mapsto> r\<lparr>pistaColetada := 1\<rparr>) \<and>
            rootPistas s1 = inserirPista (rootPistas s) p"
    then obtain r p where r: "salas s (atual s) = Some r" "pista r = Some p" "pistaColetada r = 0"
      and s1: "salas s1 = (salas s)(atual s \<mapsto> r\<lparr>pistaColetada := 1\<rparr>)"
      and l1: "rootPistas s1 = inserirPista (rootPistas s) p"
      by blast
    have "salas s1 (atual s) = Some (r\<lparr>pistaColetada := 1\<rparr>)"
      by (simp add: s1)
    from m[OF this] obtain q' where q': "salas s' (atual s) = Some q'" "pistaColetada q' \<noteq> 0"
      by (auto simp: mesma_sala_def)
    have novo: "coleta s s' (atual s, p)"
      using r q' by (simp add: coleta_def)
    have outros: "coleta s s' x \<and> fst x \<noteq> atual s" if "x \<in> set cs" for x
    proof -
      from that cs(2) have c: "coleta s1 s' x"
        by (simp add: list_all_iff)
      then have "fst x \<noteq> atual s"
        by (auto simp: coleta_def s1 split: option.splits if_splits)
      moreover from this c have "coleta s s' x"
        by (simp add: coleta_def s1)
      ultimately show ?thesis
        by simp
    qed
    let ?cs = "(atual s, p) # cs"
    have "atual s \<notin> fst ` set cs"
    proof
      assume "atual s \<in> fst ` set cs"
      then obtain x where "x \<in> set cs" "fst x = atual s"
        by auto
      with outros[of x] show False
        by simp
    qed
    then have "distinct (map fst ?cs)"
      using cs(1) by simp
    moreover have "list_all (coleta s s') ?cs"
      using novo outros by (simp add: list_all_iff)
    moreover have "rootPistas s' = inserir_todas (rootPistas s) (map snd ?cs)"
      using cs(3) l1 by (simp add: inserir_todas_def)
    ultimately show ?thesis
      by blast
  qed
qed


text \<open>C7. Over a whole exploration, and over every single pass of its loop, a room keeps
  its name, its clue and its doors, and a flag that is set stays set: the flag goes from
  unset to set at most once. A pass of the loop in a room whose flag is set leaves the
  ledger and the rooms as they are, and the visit only reports that the clue was
  collected before. The visit of a room whose clue is not yet collected inserts the clue
  once and sets the flag of the room. So a whole exploration inserts into the ledger one
  clue for each room of a list without repetition, the rooms whose flag it has set.\<close>

theorem C7_coleta_unica:
  "(explorar_laco s entrada = Inr (s', resto) \<and> salas s a = Some r \<longrightarrow>
      (\<exists>r'. salas s' a = Some r' \<and> mesma_sala r r')) \<and>
   (iteracao s entrada = Inr (c, s1, resto1) \<and> salas s a = Some r \<longrightarrow>
      (\<exists>r'. salas s1 a = Some r' \<and> mesma_sala r r')) \<and>
   (iteracao s entrada = Inr (c, s1, resto1) \<and> salas s (atual s) = Some r0 \<and>
    pistaColetada r0 \<noteq> 0 \<longrightarrow>
      rootPistas s1 = rootPistas s \<and> salas s1 = salas s) \<and>
   (salas s (atual s) = Some r0 \<and> pista r0 = Some p \<and> pistaColetada r0 \<noteq> 0 \<longrightarrow>
      visitar s = Inr (imprimir [MsgSala (nome r0), MsgJaColetada] s)) \<and>
   (salas s (atual s) = Some r0 \<and> pista r0 = Some p \<and> pistaColetada r0 = 0 \<longrightarrow>
      visitar s =
        Inr ((imprimir [MsgSala (nome r0), MsgPistaEncontrada p] s)
               \<lparr>rootPistas := inserirPista (rootPistas s) p,
                salas := (salas s)(atual s \<mapsto> r0\<lparr>pistaColetada := 1\<rparr>)\<rparr>)) \<and>
   (explorar_laco s entrada = Inr (s', resto) \<longrightarrow>
      (\<exists>cs. distinct (map fst cs) \<and> list_all (coleta s s') cs \<and>
            rootPistas s' = inserir_todas (rootPistas s) (map snd cs)))"
  using laco_sala[of s entrada s' resto a r] iteracao_sala[of s entrada c s1 resto1 a r]
    iteracao_coletada[of s entrada c s1 resto1 r0] visitar_ja_coletada[of s r0 p]
    visitar_coleta[of s r0 p] laco_coletas[of s entrada s' resto]
  by blast

theorem C7_coleta_unica_witness:
  "\<exists>s' resto r' c s1 resto1 cs.
     explorar_laco hall0 ''e\<newline>x\<newline>s\<newline>'' = Inr (s', resto) \<and>
     salas hall0 1 = Some ((criarSala ''Biblioteca'' (Some ''Marca de luva com poeira''))
                             \<lparr>esq := Some 3, dir := Some 4\<rparr>) \<and>
     salas s' 1 = Some r' \<and>
     mesma_sala ((criarSala ''Biblioteca'' (Some ''Marca de luva com poeira''))
                             \<lparr>esq := Some 3, dir := Some 4\<rparr>) r' \<and>
     pistaColetada r' = 1 \<and>
     nos (rootPistas s') = [(''Marca de luva com poeira'', 1)] \<and>
     distinct (map fst cs) \<and> list_all (coleta hall0 s') cs \<and>
     rootPistas s' = inserir_todas (rootPistas hall0) (map snd cs) \<and>
     iteracao biblioteca_visitada ''x\<newline>'' = Inr (c, s1, resto1) \<and>
     rootPistas s1 = No ''Marca de luva com poeira'' 1 Nulo Nulo \<and>
     salas s1 = salas biblioteca_visitada \<and>
     visitar biblioteca_visitada =
       Inr (imprimir [MsgSala ''Biblioteca'', MsgJaColetada] biblioteca_visitada) \<and>
     salas biblioteca0 (atual biblioteca0) =
       Some ((criarSala ''Biblioteca'' (Some ''Marca de luva com poeira''))
               \<lparr>esq := Some 3, dir := Some 4\<rparr>) \<and>
     visitar biblioteca0 =
       Inr ((imprimir [MsgSala ''Biblioteca'', MsgPistaEncontrada ''Marca de luva com poeira'']
               biblioteca0)
              \<lparr>rootPistas := No ''Marca de luva com poeira'' 1 Nulo Nulo,
               salas := mansao(1 \<mapsto> (criarSala ''Biblioteca'' (Some ''Marca de luva com poeira''))
                 \<lparr>pistaColetada := 1, esq := Some 3, dir := Some 4\<rparr>)\<rparr>)"
proof -
  let ?b = "(criarSala ''Biblioteca'' (Some ''Marca de luva com poeira''))\<lparr>esq := Some 3, dir := Some 4\<rparr>"
  let ?b1 = "(criarSala ''Biblioteca'' (Some ''Marca de luva com poeira''))
               \<lparr>pistaColetada := 1, esq := Some 3, dir := Some 4\<rparr>"
  have "case explorar_laco hall0 ''e\<newline>x\<newline>s\<newline>'' of Inl e \<Rightarrow> False
        | Inr (s', resto) \<Rightarrow> nos (rootPistas s') = [(''Marca de luva com poeira'', 1)] \<and>
            map_option pistaColetada (salas s' 1) = Some 1"
    by code_simp
  then obtain s' resto where 1: "explorar_laco hall0 ''e\<newline>x\<newline>s\<newline>'' = Inr (s', resto)"
    and 2: "nos (rootPistas s') = [(''Marca de luva com poeira'', 1)]"
    and 3: "map_option pistaColetada (salas s' 1) = Some 1"
    by (auto split: sum.splits)
  have r: "salas hall0 1 = Some ?b"
    by (simp add: hall0_def mansao_def)
  have "case iteracao biblioteca_visitada ''x\<newline>'' of Inl e \<Rightarrow> False | Inr x \<Rightarrow> True"
    by code_simp
  then obtain c s1 resto1 where 4: "iteracao biblioteca_visitada ''x\<newline>'' = Inr (c, s1, resto1)"
    by (auto split: sum.splits)
  have v: "salas biblioteca_visitada (atual biblioteca_visitada) = Some ?b1"
    "pista ?b1 = Some ''Marca de luva com poeira''" "pistaColetada ?b1 \<noteq> 0" "nome ?b1 = ''Biblioteca''"
    by (simp_all add: biblioteca_visitada_def criarSala_def)
  have rp: "rootPistas biblioteca_visitada = No ''Marca de luva com poeira'' 1 Nulo Nulo"
    by (simp add: biblioteca_visitada_def)
  have w: "salas biblioteca0 (atual biblioteca0) = Some ?b"
    "pista ?b = Some ''Marca de luva com poeira''" "pistaColetada ?b = 0" "nome ?b = ''Biblioteca''"
    by (simp_all add: biblioteca0_def mansao_def criarSala_def)
  from C7_coleta_unica [of hall0 "''e\<newline>x\<newline>s\<newline>''" s' resto 1 ?b] 1 r
  obtain r' cs where 5: "salas s' 1 = Some r'" "mesma_sala ?b r'"
    and 7: "distinct (map fst cs)" "list_all (coleta hall0 s') cs"
      "rootPistas s' = inserir_todas (rootPistas hall0) (map snd cs)"
    by blast
  from C7_coleta_unica [of biblioteca_visitada "''x\<newline>''" _ _ _ _ c s1 resto1 ?b1 "''Marca de luva com poeira''"] 4 v
  have 6: "rootPistas s1 = rootPistas biblioteca_visitada" "salas s1 = salas biblioteca_visitada"
    "visitar biblioteca_visitada = Inr (imprimir [MsgSala ''Biblioteca'', MsgJaColetada] biblioteca_visitada)"
    by simp_all
  from C7_coleta_unica [of biblioteca0 _ _ _ _ _ _ _ _ ?b "''Marca de luva com poeira''"] w
  have 8: "visitar biblioteca0 =
       Inr ((imprimir [MsgSala ''Biblioteca'', MsgPistaEncontrada ''Marca de luva com poeira'']
               biblioteca0)
              \<lparr>rootPistas := No ''Marca de luva com poeira'' 1 Nulo Nulo,
               salas := mansao(1 \<mapsto> ?b1)\<rparr>)"
    by (simp add: biblioteca0_def novoNoPista_def criarSala_def)
  from 1 2 3 4 5 6 7 8 r rp w(1) show ?thesis
    by auto
qed

subsection \<open>Properties of the commands\<close>

lemma comando_Cons:
  "trim_nl linha = c0 # r0 \<Longrightarrow>
   comando linha s =
     (if tolower c0 = CHR ''s'' then Inr (Sair, imprimir [MsgEncerrar] s)
      else if tolower c0 = CHR ''e'' then
        (case salas s (atual s) of
           None \<Rightarrow> Inl PonteiroInvalido
         | Some sala \<Rightarrow>
             (case esq sala of
                Some a \<Rightarrow> Inr (Continuar, s\<lparr>atual := a\<rparr>)
              | None \<Rightarrow> Inr (Continuar, imprimir [MsgSemEsquerda] s)))
      else if tolower c0 = CHR ''d'' then
        (case salas s (atual s) of
           None \<Rightarrow> Inl PonteiroInvalido
         | Some sala \<Rightarrow>
             (case dir sala of
                Some a \<Rightarrow> Inr (Continuar, s\<lparr>atual := a\<rparr>)
              | None \<Rightarrow> Inr (Continuar, imprimir [MsgSemDireita] s)))
      else Inr (Continuar, imprimir [MsgInvalido] s))"
  by (simp add: comando_def Let_def)

lemma comando_Nil: "trim_nl linha = [] \<Longrightarrow> comando linha s = Inr (Continuar, s)"
  by (simp add: comando_def)

lemma comando_tolower: "comando (c0 # l) s = comando (tolower c0 # l) s"
proof (cases "l = [] \<and> c0 = NL")
  case True
  then show ?thesis
    by (simp add: tolower_NL[THEN iffD2])
next
  case False
  then obtain r0 where 1: "trim_nl (c0 # l) = c0 # r0"
    using trim_nl_Cons_ex by blast
  from False have "\<not> (l = [] \<and> tolower c0 = NL)"
    by (simp add: tolower_NL)
  then obtain r1 where 2: "trim_nl (tolower c0 # l) = tolower c0 # r1"
    using trim_nl_Cons_ex by blast
  show ?thesis
    by (simp add: comando_Cons[OF 1] comando_Cons[OF 2] tolower_idem)
qed

lemma comando_resto: "c0 \<noteq> NL \<Longrightarrow> comando (c0 # r) s = comando [c0] s"
proof -
  assume a: "c0 \<noteq> NL"
  then obtain r0 where 1: "trim_nl (c0 # r) = c0 # r0"
    using trim_nl_Cons_ex[of r c0] by blast
  from a have 2: "trim_nl [c0] = c0 # []"
    by (simp add: trim_nl_Cons)
  show ?thesis
    by (simp add: comando_Cons[OF 1] comando_Cons[OF 2])
qed


text \<open>On a store whose doors all lead to rooms, from a room of the store, the exploration
  never dereferences an invalid pointer: it returns for every input.\<close>

lemma visitar_fechada:
  assumes "fechada (salas s)" and "salas s (atual s) \<noteq> None"
  shows "\<exists>s'. visitar s = Inr s' \<and> fechada (salas s') \<and> salas s' (atual s') \<noteq> None"
proof -
  from assms(2) obtain r where r: "salas s (atual s) = Some r"
    by blast
  then have "\<exists>s'. visitar s = Inr s'"
    by (cases "pista r") (simp_all add: visitar_def Let_def)
  then obtain s' where v: "visitar s = Inr s'"
    by blast
  have a: "atual s' = atual s"
    using visitar_sala[OF v r] by simp
  have k: "\<And>b q. salas s b = Some q \<Longrightarrow> \<exists>q'. salas s' b = Some q' \<and> mesma_sala q q'"
    using visitar_sala[OF v] by blast
  have d: "\<And>b q'. salas s' b = Some q' \<Longrightarrow> \<exists>q. salas s b = Some q \<and> mesma_sala q q'"
    using v r by (auto simp: visitar_def Let_def imprimir_def mesma_sala_def split: option.splits if_splits)
  have "fechada (salas s')"
    unfolding fechada_def
  proof (intro allI impI conjI)
    fix b q' e
    assume q': "salas s' b = Some q'"
    then obtain q where q: "salas s b = Some q" "mesma_sala q q'"
      using d by blast
    { assume "esq q' = Some e"
      then have "esq q = Some e" using q(2) by (simp add: mesma_sala_def)
      then have "salas s e \<noteq> None" using assms(1) q(1) by (auto simp: fechada_def)
      then show "salas s' e \<noteq> None" using k by fastforce }
    { assume "dir q' = Some e"
      then have "dir q = Some e" using q(2) by (simp add: mesma_sala_def)
      then have "salas s e \<noteq> None" using assms(1) q(1) by (auto simp: fechada_def)
      then show "salas s' e \<noteq> None" using k by fastforce }
  qed
  moreover have "salas s' (atual s') \<noteq> None"
    using k[OF r] a by auto
  ultimately show ?thesis
    using v by blast
qed

lemma comando_fechada:
  assumes "fechada (salas s)" and "salas s (atual s) \<noteq> None"
  shows "\<exists>c s'. comando linha s = Inr (c, s') \<and> salas s' = salas s \<and> salas s' (atual s') \<noteq> None"
proof -
  from assms(2) obtain r where r: "salas s (atual s) = Some r"
    by blast
  have e: "\<And>b. esq r = Some b \<Longrightarrow> salas s b \<noteq> None" and d: "\<And>b. dir r = Some b \<Longrightarrow> salas s b \<noteq> None"
    using assms(1) r by (auto simp: fechada_def)
  show ?thesis
  proof (cases "trim_nl linha")
    case Nil
    then show ?thesis using assms(2) by (simp add: comando_Nil)
  next
    case (Cons c0 r0)
    show ?thesis
      using r e d assms(2)
      by (auto simp: comando_Cons[OF Cons] imprimir_campos split: option.splits)
  qed
qed

lemma iteracao_fechada:
  assumes "fechada (salas s)" and "salas s (atual s) \<noteq> None"
  shows "\<exists>c s' resto. iteracao s entrada = Inr (c, s', resto) \<and> fechada (salas s') \<and>
           salas s' (atual s') \<noteq> None"
proof -
  from visitar_fechada[OF assms] obtain s1 where
    v: "visitar s = Inr s1" "fechada (salas s1)" "salas s1 (atual s1) \<noteq> None"
    by blast
  let ?s2 = "imprimir [MsgOpcoes, MsgEscolha] s1"
  have f2: "fechada (salas ?s2)" "salas ?s2 (atual ?s2) \<noteq> None"
    using v by (simp_all add: imprimir_campos)
  show ?thesis
  proof (cases "fgets 128 entrada")
    case None
    with v f2 show ?thesis
      by (simp add: iteracao_def Let_def)
  next
    case (Some lr)
    obtain linha resto where lr: "lr = (linha, resto)"
      by (cases lr)
    from comando_fechada[OF f2, of linha] obtain c s' where
      "comando linha ?s2 = Inr (c, s')" "salas s' = salas ?s2" "salas s' (atual s') \<noteq> None"
      by blast
    with v f2 Some lr show ?thesis
      by (simp add: iteracao_def Let_def)
  qed
qed

lemma laco_sem_erro:
  "fechada (salas s) \<Longrightarrow> salas s (atual s) \<noteq> None \<Longrightarrow>
   \<exists>s' resto. explorar_laco s entrada = Inr (s', resto)"
proof (induction s entrada rule: explorar_laco.induct)
  case (1 s entrada)
  from iteracao_fechada[OF "1.prems", of entrada] obtain c s1 resto1 where
    it: "iteracao s entrada = Inr (c, s1, resto1)" "fechada (salas s1)" "salas s1 (atual s1) \<noteq> None"
    by blast
  show ?case
  proof (cases c)
    case Sair
    with it show ?thesis
      by (subst explorar_laco.simps) simp
  next
    case Continuar
    from "1.IH"[OF it(1) refl _ refl it(2,3)] Continuar
    obtain s' resto where "explorar_laco s1 resto1 = Inr (s', resto)"
      by auto
    with it Continuar show ?thesis
      by (subst explorar_laco.simps) simp
  qed
qed

lemma fechada_mansao: "fechada mansao"
  by (auto simp: fechada_def mansao_def criarSala_def split: if_splits)


lemma main_sem_erro: "\<exists>out. main entrada = Inr out"
proof -
  let ?s = "imprimir [MsgComeco]
              \<lparr>salas = mansao, atual = 0, rootPistas = Nulo, saida = [MsgTitulo, MsgInstrucoes]\<rparr>"
  have "fechada (salas ?s)" "salas ?s (atual ?s) \<noteq> None"
    by (simp_all add: imprimir_campos fechada_mansao) (simp add: mansao_def)
  from laco_sem_erro[OF this, of entrada] show ?thesis
    by (auto simp: main_def explorarSalasComPistas_def Let_def)
qed

text \<open>A run of the whole program: right, left, leave, and the accusation of the suspect
  at whom both clues collected point.\<close>

lemma main_exemplo:
  "main ''d\<newline>e\<newline>s\<newline>Sra. Beatriz\<newline>'' =
     Inr [MsgTitulo, MsgInstrucoes, MsgComeco,
          MsgSala ''Hall de Entrada'', MsgNenhumaPista, MsgOpcoes, MsgEscolha,
          MsgSala ''Sala de Estar'', MsgPistaEncontrada ''Copo quebrado com pegadas'',
          MsgOpcoes, MsgEscolha,
          MsgSala ''Corredor'', MsgPistaEncontrada ''notas rasgadas com iniciais A.B.'',
          MsgOpcoes, MsgEscolha, MsgEncerrar,
          MsgPistasColetadas,
          MsgPista ''Copo quebrado com pegadas'' 1,
          MsgPista ''notas rasgadas com iniciais A.B.'' 1,
          MsgPedirAcusado, MsgNomeAcusado,
          MsgAcusou ''Sra. Beatriz'', MsgNumero ''Sra. Beatriz'' 2, MsgSustentada, MsgFim]"
  by code_simp

text \<open>C8 (as amended). A command to the left or to the right where the room has no such door
  reports that the path does not exist, and a line that is not empty and whose first
  character is none of e, d, s in either case reports an invalid command; an empty line
  reports nothing. In all these cases the loop continues in the same room, with the rooms
  and the ledger as they were: only the output grows.\<close>

theorem C8_sem_caminho:
  "(trim_nl linha = c0 # r0 \<and> tolower c0 = CHR ''e'' \<and> salas s (atual s) = Some sala \<and>
    esq sala = None \<longrightarrow> comando linha s = Inr (Continuar, imprimir [MsgSemEsquerda] s)) \<and>
   (trim_nl linha = c0 # r0 \<and> tolower c0 = CHR ''d'' \<and> salas s (atual s) = Some sala \<and>
    dir sala = None \<longrightarrow> comando linha s = Inr (Continuar, imprimir [MsgSemDireita] s)) \<and>
   (trim_nl linha = c0 # r0 \<and> tolower c0 \<noteq> CHR ''s'' \<and> tolower c0 \<noteq> CHR ''e'' \<and>
    tolower c0 \<noteq> CHR ''d'' \<longrightarrow> comando linha s = Inr (Continuar, imprimir [MsgInvalido] s)) \<and>
   (trim_nl linha = [] \<longrightarrow> comando linha s = Inr (Continuar, s)) \<and>
   salas (imprimir ms s) = salas s \<and> atual (imprimir ms s) = atual s \<and>
   rootPistas (imprimir ms s) = rootPistas s \<and> saida (imprimir ms s) = saida s @ ms"
  by (auto simp: comando_Cons comando_Nil imprimir_campos)

theorem C8_sem_caminho_witness:
  "trim_nl ''e\<newline>'' = ''e'' \<and> tolower CHR ''e'' = CHR ''e'' \<and>
   salas cozinha0 (atual cozinha0) = Some (criarSala ''Cozinha'' (Some cha)) \<and>
   esq (criarSala ''Cozinha'' (Some cha)) = None \<and>
   comando ''e\<newline>'' cozinha0 = Inr (Continuar, imprimir [MsgSemEsquerda] cozinha0) \<and>
   trim_nl ''D\<newline>'' = ''D'' \<and> tolower CHR ''D'' = CHR ''d'' \<and>
   dir (criarSala ''Cozinha'' (Some cha)) = None \<and>
   comando ''D\<newline>'' cozinha0 = Inr (Continuar, imprimir [MsgSemDireita] cozinha0) \<and>
   trim_nl ''x\<newline>'' = ''x'' \<and> tolower CHR ''x'' = CHR ''x'' \<and>
   comando ''x\<newline>'' cozinha0 = Inr (Continuar, imprimir [MsgInvalido] cozinha0) \<and>
   trim_nl ''\<newline>'' = [] \<and>
   comando ''\<newline>'' cozinha0 = Inr (Continuar, cozinha0) \<and>
   salas (imprimir [MsgInvalido] cozinha0) = mansao \<and> atual (imprimir [MsgInvalido] cozinha0) = 3 \<and>
   saida (imprimir [MsgInvalido] cozinha0) = [MsgInvalido]"
proof -
  have t: "trim_nl ''e\<newline>'' = ''e''" "trim_nl ''D\<newline>'' = ''D''" "trim_nl ''x\<newline>'' = ''x''"
    "trim_nl ''\<newline>'' = []"
    by code_simp+
  have l: "tolower CHR ''e'' = CHR ''e''" "tolower CHR ''D'' = CHR ''d''" "tolower CHR ''x'' = CHR ''x''"
    by code_simp+
  have k: "salas cozinha0 (atual cozinha0) = Some (criarSala ''Cozinha'' (Some cha))"
    "esq (criarSala ''Cozinha'' (Some cha)) = None" "dir (criarSala ''Cozinha'' (Some cha)) = None"
    by (simp_all add: cozinha0_def mansao_def criarSala_def)
  have c: "salas cozinha0 = mansao" "atual cozinha0 = 3" "saida cozinha0 = []"
    by (simp_all add: cozinha0_def)
  from C8_sem_caminho [of "''e\<newline>''" "CHR ''e''" "[]" cozinha0 "criarSala ''Cozinha'' (Some cha)" "[MsgInvalido]"]
    C8_sem_caminho [of "''D\<newline>''" "CHR ''D''" "[]" cozinha0 "criarSala ''Cozinha'' (Some cha)" "[MsgInvalido]"]
    C8_sem_caminho [of "''x\<newline>''" "CHR ''x''" "[]" cozinha0 "criarSala ''Cozinha'' (Some cha)" "[MsgInvalido]"]
    C8_sem_caminho [of "''\<newline>''" "CHR ''x''" "[]" cozinha0 "criarSala ''Cozinha'' (Some cha)" "[MsgInvalido]"]
    t l k c
  show ?thesis
    by simp
qed

text \<open>Against C8 as stated: the empty line is an input that is no command, and it is
  answered by no report of an invalid command; the room is shown again.\<close>

theorem C8_counterexample:
  "comando ''\<newline>'' hall0 = Inr (Continuar, hall0) \<and> saida hall0 = [] \<and>
   main ''\<newline>'' =
     Inr [MsgTitulo, MsgInstrucoes, MsgComeco,
          MsgSala ''Hall de Entrada'', MsgNenhumaPista, MsgOpcoes, MsgEscolha,
          MsgSala ''Hall de Entrada'', MsgNenhumaPista, MsgOpcoes, MsgEscolha,
          MsgPistasColetadas, MsgNenhumaColetada, MsgPedirAcusado, MsgNomeAcusado,
          MsgSemNome, MsgFim]"
proof -
  have "trim_nl ''\<newline>'' = []"
    by code_simp
  then have "comando ''\<newline>'' hall0 = Inr (Continuar, hall0)"
    by (rule comando_Nil)
  moreover have "saida hall0 = []"
    by (simp add: hall0_def)
  moreover have "main ''\<newline>'' =
     Inr [MsgTitulo, MsgInstrucoes, MsgComeco,
          MsgSala ''Hall de Entrada'', MsgNenhumaPista, MsgOpcoes, MsgEscolha,
          MsgSala ''Hall de Entrada'', MsgNenhumaPista, MsgOpcoes, MsgEscolha,
          MsgPistasColetadas, MsgNenhumaColetada, MsgPedirAcusado, MsgNomeAcusado,
          MsgSemNome, MsgFim]"
    by code_simp
  ultimately show ?thesis
    by simp
qed

text \<open>C9 (as amended). Only the final newline of a line is removed, and the first character
  that remains is read without regard to case. No white space is removed: white space
  after the first character is ignored with the rest of the line, and a line that begins
  with white space is an invalid command.\<close>

theorem C9_so_newline:
  "(NL \<notin> set l \<longrightarrow> comando (l @ [NL]) s = comando l s) \<and>
   comando (c0 # r) s = comando (tolower c0 # r) s \<and>
   (isspace c0 \<and> c0 # r \<noteq> [NL] \<longrightarrow>
      comando (c0 # r) s = Inr (Continuar, imprimir [MsgInvalido] s)) \<and>
   (c0 \<noteq> NL \<longrightarrow> comando (c0 # r) s = comando [c0] s)"
proof (intro conjI impI)
  assume "c0 \<noteq> NL"
  then show "comando (c0 # r) s = comando [c0] s"
    by (rule comando_resto)
next
  assume "NL \<notin> set l"
  then show "comando (l @ [NL]) s = comando l s"
    by (simp add: comando_def trim_nl_snoc trim_nl_id)
next
  show "comando (c0 # r) s = comando (tolower c0 # r) s"
    by (rule comando_tolower)
next
  assume a: "isspace c0 \<and> c0 # r \<noteq> [NL]"
  then have "\<not> (r = [] \<and> c0 = NL)"
    by auto
  then obtain r0 where 1: "trim_nl (c0 # r) = c0 # r0"
    using trim_nl_Cons_ex by blast
  from a show "comando (c0 # r) s = Inr (Continuar, imprimir [MsgInvalido] s)"
    using isspace_tolower[of c0] by (simp add: comando_Cons[OF 1])
qed

theorem C9_so_newline_witness:
  "NL \<notin> set ''E '' \<and> comando ''E \<newline>'' hall0 = comando ''E '' hall0 \<and>
   comando ''E '' hall0 = comando ''e '' hall0 \<and>
   comando ''e '' hall0 = Inr (Continuar, hall0\<lparr>atual := 1\<rparr>) \<and>
   isspace CHR '' '' \<and> '' e\<newline>'' \<noteq> [NL] \<and>
   comando '' e\<newline>'' hall0 = Inr (Continuar, imprimir [MsgInvalido] hall0) \<and>
   CHR ''E'' \<noteq> NL \<and> comando ''E '' hall0 = comando ''E'' hall0"
proof -
  have h: "NL \<notin> set ''E ''" "isspace CHR '' ''" "'' e\<newline>'' \<noteq> [NL]" "CHR ''E'' \<noteq> NL"
    by (simp_all add: NL_def isspace_def)
  have t: "tolower CHR ''E'' = CHR ''e''" "tolower CHR ''e'' = CHR ''e''" "trim_nl ''e '' = ''e ''"
    "tolower CHR '' '' = CHR '' ''"
    by code_simp+
  have e: "comando ''e '' hall0 = Inr (Continuar, hall0\<lparr>atual := 1\<rparr>)"
    by (simp add: comando_Cons[OF t(3)] t hall0_def mansao_def criarSala_def)
  from C9_so_newline [where l = "''E ''" and s = hall0 and ?c0.0 = "CHR ''E''" and r = "'' ''"]
    C9_so_newline [where l = "''E ''" and s = hall0 and ?c0.0 = "CHR '' ''" and r = "''e\<newline>''"] h t e
  show ?thesis
    by (auto simp: NL_def)
qed

text \<open>Against C9 as stated: the line of a blank, the letter e and a blank is an invalid
  command in a room that has a door to the left, where the letter e alone moves left.\<close>

theorem C9_counterexample:
  "comando '' e \<newline>'' hall0 = Inr (Continuar, imprimir [MsgInvalido] hall0) \<and>
   atual (imprimir [MsgInvalido] hall0) = 0 \<and>
   comando ''e\<newline>'' hall0 = Inr (Continuar, hall0\<lparr>atual := 1\<rparr>) \<and>
   main '' e \<newline>'' =
     Inr [MsgTitulo, MsgInstrucoes, MsgComeco,
          MsgSala ''Hall de Entrada'', MsgNenhumaPista, MsgOpcoes, MsgEscolha, MsgInvalido,
          MsgSala ''Hall de Entrada'', MsgNenhumaPista, MsgOpcoes, MsgEscolha,
          MsgPistasColetadas, MsgNenhumaColetada, MsgPedirAcusado, MsgNomeAcusado,
          MsgSemNome, MsgFim]"
proof -
  have t: "trim_nl '' e \<newline>'' = '' e ''" "trim_nl ''e\<newline>'' = ''e''"
    "tolower CHR '' '' = CHR '' ''" "tolower CHR ''e'' = CHR ''e''"
    by code_simp+
  have 1: "comando '' e \<newline>'' hall0 = Inr (Continuar, imprimir [MsgInvalido] hall0)"
    by (simp add: comando_Cons[OF t(1)] t)
  have 2: "comando ''e\<newline>'' hall0 = Inr (Continuar, hall0\<lparr>atual := 1\<rparr>)"
    by (simp add: comando_Cons[OF t(2)] t hall0_def mansao_def criarSala_def)
  have 3: "atual (imprimir [MsgInvalido] hall0) = 0"
    by (simp add: imprimir_def hall0_def)
  have 4: "main '' e \<newline>'' =
     Inr [MsgTitulo, MsgInstrucoes, MsgComeco,
          MsgSala ''Hall de Entrada'', MsgNenhumaPista, MsgOpcoes, MsgEscolha, MsgInvalido,
          MsgSala ''Hall de Entrada'', MsgNenhumaPista, MsgOpcoes, MsgEscolha,
          MsgPistasColetadas, MsgNenhumaColetada, MsgPedirAcusado, MsgNomeAcusado,
          MsgSemNome, MsgFim]"
    by code_simp
  from 1 2 3 4 show ?thesis
    by simp
qed

text \<open>C10. Once the final newline is removed, a line that is not empty is classified by its
  first character alone, lowered: s leaves the exploration, e tries the door to the left,
  d the door to the right, and two lines that begin alike are answered alike; so the line
  "exit" moves to the left.\<close>

theorem C10_primeiro_caractere:
  "trim_nl linha = c0 # r0 \<Longrightarrow>
   (tolower c0 = CHR ''s'' \<longrightarrow> comando linha s = Inr (Sair, imprimir [MsgEncerrar] s)) \<and>
   (tolower c0 = CHR ''e'' \<and> salas s (atual s) = Some sala \<longrightarrow>
      comando linha s =
        (case esq sala of
           Some a \<Rightarrow> Inr (Continuar, s\<lparr>atual := a\<rparr>)
         | None \<Rightarrow> Inr (Continuar, imprimir [MsgSemEsquerda] s))) \<and>
   (tolower c0 = CHR ''d'' \<and> salas s (atual s) = Some sala \<longrightarrow>
      comando linha s =
        (case dir sala of
           Some a \<Rightarrow> Inr (Continuar, s\<lparr>atual := a\<rparr>)
         | None \<Rightarrow> Inr (Continuar, imprimir [MsgSemDireita] s))) \<and>
   (trim_nl linha' = c0 # r1 \<longrightarrow> comando linha' s = comando linha s)"
  by (auto simp: comando_Cons)

theorem C10_primeiro_caractere_witness:
  "trim_nl ''exit\<newline>'' = CHR ''e'' # ''xit'' \<and> tolower CHR ''e'' = CHR ''e'' \<and>
   salas hall0 (atual hall0) =
     Some ((criarSala ''Hall de Entrada'' None)\<lparr>esq := Some 1, dir := Some 2\<rparr>) \<and>
   comando ''exit\<newline>'' hall0 = Inr (Continuar, hall0\<lparr>atual := 1\<rparr>) \<and>
   trim_nl ''e'' = CHR ''e'' # [] \<and> comando ''e'' hall0 = comando ''exit\<newline>'' hall0 \<and>
   trim_nl ''Sala\<newline>'' = CHR ''S'' # ''ala'' \<and> tolower CHR ''S'' = CHR ''s'' \<and>
   comando ''Sala\<newline>'' hall0 = Inr (Sair, imprimir [MsgEncerrar] hall0) \<and>
   trim_nl ''Dois\<newline>'' = CHR ''D'' # ''ois'' \<and> tolower CHR ''D'' = CHR ''d'' \<and>
   comando ''Dois\<newline>'' hall0 = Inr (Continuar, hall0\<lparr>atual := 2\<rparr>)"
proof -
  let ?hall = "(criarSala ''Hall de Entrada'' None)\<lparr>esq := Some 1, dir := Some 2\<rparr>"
  have t: "trim_nl ''exit\<newline>'' = CHR ''e'' # ''xit''" "trim_nl ''e'' = CHR ''e'' # []"
    "trim_nl ''Sala\<newline>'' = CHR ''S'' # ''ala''" "trim_nl ''Dois\<newline>'' = CHR ''D'' # ''ois''"
    by code_simp+
  have l: "tolower CHR ''e'' = CHR ''e''" "tolower CHR ''S'' = CHR ''s''" "tolower CHR ''D'' = CHR ''d''"
    by code_simp+
  have k: "salas hall0 (atual hall0) = Some ?hall" "esq ?hall = Some 1" "dir ?hall = Some 2"
    by (simp_all add: hall0_def mansao_def criarSala_def)
  from C10_primeiro_caractere [OF t(1), where s = hall0 and sala = ?hall and linha' = "''e''" and ?r1.0 = "[]"]
    C10_primeiro_caractere [OF t(3), where s = hall0 and sala = ?hall and linha' = "''S''" and ?r1.0 = "[]"]
    C10_primeiro_caractere [OF t(4), where s = hall0 and sala = ?hall and linha' = "''D''" and ?r1.0 = "[]"]
    t l k
  show ?thesis
    by simp
qed


end
